theory Spec2Isabelle
  imports Complex_Main "HOL-Library.Multiset"
begin

section \<open>Lag calculation of EQcorrscan: \<open>eqcorrscan/core/lag_calc.py\<close>\<close>

text \<open>
  The module refines the picks of detections made by template matching. It has three
  functions: \<open>_channel_loop\<close> (one detection against its template), \<open>_day_loop\<close> (all
  detections of one template, run in a process pool) and \<open>lag_calc\<close> (delays, windows,
  grouping by template).

  Modelling decisions.
  \<^item> Times, sample rates and correlation values are Python floats in the source; here
    they are exact reals, so rounding is not modelled.
  \<^item> \<open>normxcorr2\<close> (from \<open>eqcorrscan.core.match_filter\<close>) and obspy's \<open>Trace.trim\<close> are
    not part of the module: they are parameters \<open>xc\<close> and \<open>trim\<close> of the model.
  \<^item> \<open>fnmatch.fnmatch\<close>, with which obspy's \<open>Stream.select\<close> compares the codes, is a
    parameter \<open>fm\<close> of the model as well.
  \<^item> The \<open>debug\<close> argument of \<open>_channel_loop\<close> only prints and is left out.
  \<^item> An exception of the source is a value \<open>Inl e\<close> of the result.
  \<^item> The traces of the continuous data are references into a store of trace objects,
    since \<open>lag_calc\<close> copies them and trims the copies in place; the traces of the
    templates and of the windows handed to the workers are values.
  \<^item> The process pool of \<open>_day_loop\<close> has an explicit completion order of its tasks.
\<close>

subsection \<open>Data\<close>

datatype error = IndexError | KeyError | ValueError | ZeroDivisionError

text \<open>An obspy trace: the fields of \<open>tr.stats\<close> that the module reads, and \<open>tr.data\<close>.\<close>

record trace =
  network :: string
  station :: string
  channel :: string
  starttime :: real
  sampling_rate :: real
  delta :: real
  data :: "real list"

type_synonym stream = "trace list"

record detection =
  template_name :: string
  detect_time :: real

text \<open>\<open>Pick\<close> with its \<open>WaveformStreamID\<close> flattened; \<open>phase_hint\<close> is \<open>None\<close> for Python's \<open>None\<close>.\<close>

record pick =
  network_code :: string
  station_code :: string
  channel_code :: string
  time :: real
  method_id :: string
  phase_hint :: "string option"

record event =
  picks :: "pick list"

text \<open>
  obspy's \<open>Stream.select(station=s, channel=c)\<close> keeps the traces \<open>tr\<close> with
  \<open>fnmatch.fnmatch(tr.stats.station.upper(), s.upper())\<close> and the same for the channel.
  \<open>fnmatch\<close> (the shell-style matcher of the Python library) is a parameter of the model,
  called with the name first and the pattern second; \<open>upper\<close> is \<open>str.upper\<close> on ASCII.
\<close>

definition upper_char :: "char \<Rightarrow> char" where
  "upper_char c =
     (case map_of (zip ''abcdefghijklmnopqrstuvwxyz'' ''ABCDEFGHIJKLMNOPQRSTUVWXYZ'') c of
        None \<Rightarrow> c
      | Some u \<Rightarrow> u)"

definition upper :: "string \<Rightarrow> string" where
  "upper s = map upper_char s"

definition select :: "(string \<Rightarrow> string \<Rightarrow> bool) \<Rightarrow> stream \<Rightarrow> string \<Rightarrow> string \<Rightarrow> stream" where
  "select fnmatch st sta chan =
     filter (\<lambda>tr. fnmatch (upper (station tr)) (upper sta) \<and>
                  fnmatch (upper (channel tr)) (upper chan)) st"

subsection \<open>numpy helpers\<close>

text \<open>\<open>np.amax\<close> raises \<open>ValueError\<close> on an empty array.\<close>

fun amax :: "real list \<Rightarrow> error + real" where
  "amax [] = Inl ValueError"
| "amax (x # xs) = Inr (fold max xs x)"

text \<open>\<open>np.argmax\<close>: the first position of the maximum.\<close>

fun first_index :: "real \<Rightarrow> real list \<Rightarrow> nat" where
  "first_index v [] = 0"
| "first_index v (x # xs) = (if x = v then 0 else Suc (first_index v xs))"

fun argmax :: "real list \<Rightarrow> nat" where
  "argmax [] = 0"
| "argmax (x # xs) = first_index (fold max xs x) (x # xs)"

text \<open>\<open>temp_chan[-1:]\<close>: the last character as a string, empty for the empty string.\<close>

fun last_char :: "string \<Rightarrow> string" where
  "last_char [] = []"
| "last_char [c] = [c]"
| "last_char (c # d # cs) = last_char (d # cs)"

subsection \<open>\<open>_channel_loop\<close>\<close>

text \<open>
  The local state of the loop: the event being filled, the dictionary \<open>s_stachans\<close>
  (station to channel, correlation, pick time) and the list \<open>used_s_sta\<close>.
\<close>

record loop_state =
  ev :: event
  s_stachans :: "string \<rightharpoonup> (string \<times> real \<times> real)"
  used_s_sta :: "string list"

definition append_pick :: "loop_state \<Rightarrow> string \<Rightarrow> string \<Rightarrow> string \<Rightarrow> real \<Rightarrow> string option
    \<Rightarrow> loop_state" where
  "append_pick s net sta chan t ph =
     s\<lparr>ev := (ev s)\<lparr>picks := picks (ev s) @
        [\<lparr>network_code = net, station_code = sta, channel_code = chan, time = t,
          method_id = ''EQcorrscan'', phase_hint = ph\<rparr>]\<rparr>\<rparr>"

text \<open>One iteration of \<open>for tr in template\<close> (lines 37 to 80); \<open>continue\<close> is \<open>Inr s\<close>.\<close>

definition channel_step :: "(real list \<Rightarrow> real list \<Rightarrow> real list) \<Rightarrow> (string \<Rightarrow> string \<Rightarrow> bool) \<Rightarrow> stream \<Rightarrow> real \<Rightarrow> trace
    \<Rightarrow> loop_state \<Rightarrow> error + loop_state" where
  "channel_step xc fm detection min_cc tr s =
    (let temp_net = network tr; temp_sta = station tr; temp_chan = channel tr;
         image = select fm detection temp_sta temp_chan
     in case image of
          [] \<Rightarrow> Inr s
        | im # _ \<Rightarrow>
           (let ccc = xc (data tr) (data im)
            in case amax ccc of
                 Inl e \<Rightarrow> Inl e
               | Inr peak \<Rightarrow>
                  if \<not> peak > min_cc then Inr s
                  else
                    (let picktime = starttime im + real (argmax ccc) * delta im
                     in if last_char temp_chan = ''Z''
                        then Inr (append_pick s temp_net temp_sta temp_chan picktime (Some ''P''))
                        else if last_char temp_chan \<in> set [''E'', ''N'']
                        then
                          (if s_stachans s temp_sta = None \<and> peak > min_cc
                           then Inr (append_pick
                                  (s\<lparr>s_stachans := (s_stachans s)
                                        (temp_sta \<mapsto> (temp_chan, peak, picktime))\<rparr>)
                                  temp_net temp_sta temp_chan picktime (Some ''S''))
                           else if s_stachans s temp_sta \<noteq> None \<and> peak > min_cc
                           then
                             (case s_stachans s temp_sta of
                                None \<Rightarrow> Inl KeyError
                              | Some (best_chan, best_cc, best_time) \<Rightarrow>
                                  if peak > best_cc
                                  then Inr (append_pick s temp_net temp_sta temp_chan
                                              picktime (Some ''S''))
                                  else Inr (append_pick s temp_net temp_sta best_chan
                                              best_time (Some ''S'')))
                           else if peak < min_cc \<and> temp_sta \<notin> set (used_s_sta s)
                           then Inr (append_pick
                                  (s\<lparr>used_s_sta := used_s_sta s @ [temp_sta]\<rparr>)
                                  temp_net temp_sta temp_chan picktime (Some ''S''))
                           else Inr s)
                        else Inr (append_pick s temp_net temp_sta temp_chan picktime None))))"

fun channel_steps :: "(real list \<Rightarrow> real list \<Rightarrow> real list) \<Rightarrow> (string \<Rightarrow> string \<Rightarrow> bool) \<Rightarrow> stream \<Rightarrow> real \<Rightarrow> trace list
    \<Rightarrow> loop_state \<Rightarrow> error + loop_state" where
  "channel_steps xc fm detection min_cc [] s = Inr s"
| "channel_steps xc fm detection min_cc (tr # trs) s =
     (case channel_step xc fm detection min_cc tr s of
        Inl e \<Rightarrow> Inl e
      | Inr s' \<Rightarrow> channel_steps xc fm detection min_cc trs s')"

definition init_state :: loop_state where
  "init_state = \<lparr>ev = \<lparr>picks = []\<rparr>, s_stachans = Map.empty, used_s_sta = []\<rparr>"

definition channel_loop :: "(real list \<Rightarrow> real list \<Rightarrow> real list) \<Rightarrow> (string \<Rightarrow> string \<Rightarrow> bool) \<Rightarrow> stream \<Rightarrow> stream \<Rightarrow> real
    \<Rightarrow> nat \<Rightarrow> error + (nat \<times> event)" where
  "channel_loop xc fm detection template min_cc i =
     (case channel_steps xc fm detection min_cc template init_state of
        Inl e \<Rightarrow> Inl e
      | Inr s \<Rightarrow> Inr (i, ev s))"

subsection \<open>The peak and the pick of a template channel\<close>

text \<open>
  Lines 40 to 49 for one template trace: the maximum of the correlation of the trace with
  its image in the detection (none if the detection has no such channel or the sequence
  is empty), whether it exceeds \<open>min_cc\<close>, and the pick time. \<open>phase_of\<close> is the
  classification of lines 54 to 58 and 73. \<open>pick_origin\<close> and \<open>state_inv\<close> are the
  invariant of the loop used in the proofs.
\<close>

definition peak_of :: "(real list \<Rightarrow> real list \<Rightarrow> real list) \<Rightarrow> (string \<Rightarrow> string \<Rightarrow> bool) \<Rightarrow> stream \<Rightarrow> trace \<Rightarrow> real option" where
  "peak_of xc fm detection tr =
     (case select fm detection (station tr) (channel tr) of
        [] \<Rightarrow> None
      | im # _ \<Rightarrow> (case amax (xc (data tr) (data im)) of Inl e \<Rightarrow> None | Inr peak \<Rightarrow> Some peak))"

definition above_min_cc :: "(real list \<Rightarrow> real list \<Rightarrow> real list) \<Rightarrow> (string \<Rightarrow> string \<Rightarrow> bool) \<Rightarrow> stream \<Rightarrow> real \<Rightarrow> trace \<Rightarrow> bool" where
  "above_min_cc xc fm detection min_cc tr =
     (case peak_of xc fm detection tr of None \<Rightarrow> False | Some peak \<Rightarrow> peak > min_cc)"

definition phase_of :: "string \<Rightarrow> string option" where
  "phase_of chan =
     (if last_char chan = ''Z'' then Some ''P''
      else if last_char chan \<in> set [''E'', ''N''] then Some ''S'' else None)"

definition pick_time_of :: "(real list \<Rightarrow> real list \<Rightarrow> real list) \<Rightarrow> (string \<Rightarrow> string \<Rightarrow> bool) \<Rightarrow> stream \<Rightarrow> trace \<Rightarrow> real option" where
  "pick_time_of xc fm detection tr =
     (case select fm detection (station tr) (channel tr) of
        [] \<Rightarrow> None
      | im # _ \<Rightarrow> Some (starttime im + real (argmax (xc (data tr) (data im))) * delta im))"

definition pick_origin :: "(real list \<Rightarrow> real list \<Rightarrow> real list) \<Rightarrow> (string \<Rightarrow> string \<Rightarrow> bool) \<Rightarrow> stream \<Rightarrow> real \<Rightarrow> trace \<Rightarrow> pick \<Rightarrow> bool" where
  "pick_origin xc fm detection min_cc tr p \<longleftrightarrow>
     above_min_cc xc fm detection min_cc tr \<and> station_code p = station tr \<and>
     channel_code p = channel tr \<and> pick_time_of xc fm detection tr = Some (time p) \<and>
     phase_hint p = phase_of (channel tr)"

definition state_inv :: "(real list \<Rightarrow> real list \<Rightarrow> real list) \<Rightarrow> (string \<Rightarrow> string \<Rightarrow> bool) \<Rightarrow> stream \<Rightarrow> real \<Rightarrow> trace set \<Rightarrow> loop_state \<Rightarrow> bool" where
  "state_inv xc fm detection min_cc T s \<longleftrightarrow>
     (\<forall>p \<in> set (picks (ev s)). \<exists>tr \<in> T. pick_origin xc fm detection min_cc tr p) \<and>
     (\<forall>sta c pk t. s_stachans s sta = Some (c, pk, t) \<longrightarrow>
        (\<exists>tr \<in> T. station tr = sta \<and> channel tr = c \<and> phase_of c = Some ''S'' \<and>
            above_min_cc xc fm detection min_cc tr \<and> peak_of xc fm detection tr = Some pk \<and>
            pick_time_of xc fm detection tr = Some t))"

text \<open>
  Every correlation sequence that the channel loop computes for a detection stream is
  non-empty, so that \<open>np.amax\<close> does not raise.
\<close>

definition correlations_nonempty :: "(real list \<Rightarrow> real list \<Rightarrow> real list)
    \<Rightarrow> (string \<Rightarrow> string \<Rightarrow> bool) \<Rightarrow> stream \<Rightarrow> stream \<Rightarrow> bool" where
  "correlations_nonempty xc fm template detection =
     list_all (\<lambda>tr. case select fm detection (station tr) (channel tr) of
                      [] \<Rightarrow> True
                    | im # _ \<Rightarrow> xc (data tr) (data im) \<noteq> []) template"

subsection \<open>\<open>_day_loop\<close>\<close>

text \<open>
  The process pool. \<open>pool.apply_async\<close> hands out one result handle per task, in the
  order of submission; the workers finish the tasks in some order \<open>sched\<close> (a list of
  task numbers, the completion order), each storing its outcome in the slot of its
  handle. A task is a pure function of its arguments, so the slot of task \<open>i\<close> holds the
  outcome of task \<open>i\<close>.
\<close>

fun pool_run :: "(nat \<Rightarrow> 'r) \<Rightarrow> nat list \<Rightarrow> (nat \<rightharpoonup> 'r) \<Rightarrow> (nat \<rightharpoonup> 'r)" where
  "pool_run task [] slots = slots"
| "pool_run task (i # sched) slots = pool_run task sched (slots(i \<mapsto> task i))"

text \<open>
  \<open>[p.get() for p in results]\<close>: \<open>get\<close> waits for its task and raises the exception of the
  task if it raised. Waiting for a task that never completes does not return:
  \<open>None\<close>.
\<close>

fun get_all :: "(nat \<rightharpoonup> error + 'r) \<Rightarrow> nat list \<Rightarrow> (error + 'r list) option" where
  "get_all slots [] = Some (Inr [])"
| "get_all slots (p # ps) =
     (case slots p of
        None \<Rightarrow> None
      | Some (Inl e) \<Rightarrow> Some (Inl e)
      | Some (Inr r) \<Rightarrow>
          (case get_all slots ps of
             None \<Rightarrow> None
           | Some (Inl e) \<Rightarrow> Some (Inl e)
           | Some (Inr rs) \<Rightarrow> Some (Inr (r # rs))))"

text \<open>
  \<open>cpu_count()\<close> is at least one, so \<open>num_cores\<close> is zero exactly when there is no
  detection stream, and \<open>Pool(processes=0)\<close> raises \<open>ValueError\<close>. The catalog is the list
  of its events.
\<close>

definition day_loop :: "(real list \<Rightarrow> real list \<Rightarrow> real list) \<Rightarrow> (string \<Rightarrow> string \<Rightarrow> bool) \<Rightarrow> nat list \<Rightarrow> stream list \<Rightarrow> stream
    \<Rightarrow> real \<Rightarrow> (error + event list) option" where
  "day_loop xc fm sched detection_streams template min_cc =
     (if length detection_streams = 0 then Some (Inl ValueError)
      else
        (let slots = pool_run
               (\<lambda>i. channel_loop xc fm (detection_streams ! i) template min_cc i) sched Map.empty
         in case get_all slots [0..<length detection_streams] of
              None \<Rightarrow> None
            | Some (Inl e) \<Rightarrow> Some (Inl e)
            | Some (Inr events_list) \<Rightarrow> Some (Inr (map snd (sort_key fst events_list)))))"

subsection \<open>\<open>lag_calc\<close>: the delays\<close>

text \<open>
  Lines 181 to 187. \<open>for tr in template[1]\<close> runs over a copy of the trace list of the
  stream (obspy's \<open>Stream.__iter__\<close>), while \<open>sort(['starttime'])\<close> sorts the stream itself
  in place, stably, and returns it. The first argument of \<open>delay_loop\<close> is the rest of the
  copy, the second the stream as it is now. The template streams are taken to be
  distinct objects.
\<close>

type_synonym delays = "(string \<times> (string \<times> string \<times> real) list) list"

fun delay_loop :: "trace list \<Rightarrow> stream \<Rightarrow> (string \<times> string \<times> real) list
    \<Rightarrow> stream \<times> (error + (string \<times> string \<times> real) list)" where
  "delay_loop [] tmpl temp_delays = (tmpl, Inr temp_delays)"
| "delay_loop (tr # trs) tmpl temp_delays =
     (let sorted_tmpl = sort_key starttime tmpl
      in case sorted_tmpl of
           [] \<Rightarrow> (sorted_tmpl, Inl IndexError)
         | first # _ \<Rightarrow>
             delay_loop trs sorted_tmpl
               (temp_delays @ [(station tr, channel tr, starttime tr - starttime first)]))"

fun delays_loop :: "(string \<times> stream) list \<Rightarrow> delays
    \<Rightarrow> (string \<times> stream) list \<times> (error + delays)" where
  "delays_loop [] delays = ([], Inr delays)"
| "delays_loop (template # rest) delays =
     (case delay_loop (snd template) (snd template) [] of
        (tmpl, Inl e) \<Rightarrow> ((fst template, tmpl) # rest, Inl e)
      | (tmpl, Inr temp_delays) \<Rightarrow>
          (case delays_loop rest (delays @ [(fst template, temp_delays)]) of
             (rest', r) \<Rightarrow> ((fst template, tmpl) # rest', r)))"

text \<open>
  The closed form of the delay list of a template, used in the proofs: for every trace, in
  the order of the template, its start time minus the least start time of the template.
\<close>

definition template_delays :: "stream \<Rightarrow> (string \<times> string \<times> real) list" where
  "template_delays tmpl =
     map (\<lambda>tr. (station tr, channel tr, starttime tr - Min (starttime ` set tmpl))) tmpl"

subsection \<open>\<open>lag_calc\<close>: the windows\<close>

text \<open>
  \<open>tr.copy()\<close> makes a new trace object and \<open>trim\<close> changes its argument in place, so the
  traces of \<open>detect_data\<close> are references into a store of trace objects: a list, the
  reference being the position. A new object goes to the end of the store.
\<close>

type_synonym ref = nat
type_synonym store = "trace list"

definition copy_trace :: "store \<Rightarrow> ref \<Rightarrow> store \<times> ref" where
  "copy_trace st r = (st @ [st ! r], length st)"

text \<open>Lines 209 to 213: the delay of a station and channel in the table of a template.\<close>

definition lookup_delay :: "delays \<Rightarrow> string \<Rightarrow> string \<Rightarrow> string \<Rightarrow> error + real" where
  "lookup_delay delays name sta chan =
     (case [delay \<leftarrow> delays. fst delay = name] of
        [] \<Rightarrow> Inl IndexError
      | delay # _ \<Rightarrow>
          (case [d \<leftarrow> snd delay. fst d = sta \<and> fst (snd d) = chan] of
             [] \<Rightarrow> Inl IndexError
           | d # _ \<Rightarrow> Inr (snd (snd d))))"

text \<open>
  \<open>for tr in detect_data\<close> (lines 193 to 219) for one detection. Dividing by a sampling
  rate of zero raises \<open>ZeroDivisionError\<close>.
\<close>

fun trace_loop :: "(trace \<Rightarrow> real \<Rightarrow> real \<Rightarrow> error + trace) \<Rightarrow> (string \<Rightarrow> string \<Rightarrow> bool) \<Rightarrow> (string \<times> stream) list \<Rightarrow> delays
    \<Rightarrow> real \<Rightarrow> detection \<Rightarrow> ref list \<Rightarrow> store \<Rightarrow> ref list \<Rightarrow> error + (store \<times> ref list)" where
  "trace_loop trim fm zipped_templates delays shift_len detection [] st detect_stream =
     Inr (st, detect_stream)"
| "trace_loop trim fm zipped_templates delays shift_len detection (tr # trs) st detect_stream =
     (case copy_trace st tr of
        (st1, tr_copy) \<Rightarrow>
          (case [t \<leftarrow> zipped_templates. fst t = template_name detection] of
             [] \<Rightarrow> Inl IndexError
           | t # _ \<Rightarrow>
               (case select fm (snd t) (station (st1 ! tr)) (channel (st1 ! tr)) of
                  [] \<Rightarrow>
                    trace_loop trim fm zipped_templates delays shift_len detection trs st1
                      detect_stream
                | tt # _ \<Rightarrow>
                    if sampling_rate tt = 0 then Inl ZeroDivisionError
                    else
                      (let template_len = real (length (data tt)) / sampling_rate tt
                       in case lookup_delay delays (template_name detection)
                                 (station (st1 ! tr)) (channel (st1 ! tr)) of
                            Inl e \<Rightarrow> Inl e
                          | Inr delay \<Rightarrow>
                              (case trim (st1 ! tr_copy)
                                      (detect_time detection - shift_len + delay)
                                      (detect_time detection + delay + shift_len
                                         + template_len) of
                                 Inl e \<Rightarrow> Inl e
                               | Inr trimmed \<Rightarrow>
                                   trace_loop trim fm zipped_templates delays shift_len detection
                                     trs (st1[tr_copy := trimmed])
                                     (detect_stream @ [tr_copy]))))))"

text \<open>\<open>for detection in detections\<close> (lines 190 to 221).\<close>

fun detections_loop :: "(trace \<Rightarrow> real \<Rightarrow> real \<Rightarrow> error + trace) \<Rightarrow> (string \<Rightarrow> string \<Rightarrow> bool) \<Rightarrow> (string \<times> stream) list
    \<Rightarrow> delays \<Rightarrow> real \<Rightarrow> ref list \<Rightarrow> detection list \<Rightarrow> store \<Rightarrow> (string \<times> ref list) list
    \<Rightarrow> error + (store \<times> (string \<times> ref list) list)" where
  "detections_loop trim fm zipped_templates delays shift_len detect_data [] st detect_streams =
     Inr (st, detect_streams)"
| "detections_loop trim fm zipped_templates delays shift_len detect_data (detection # rest) st
       detect_streams =
     (case trace_loop trim fm zipped_templates delays shift_len detection detect_data st [] of
        Inl e \<Rightarrow> Inl e
      | Inr (st', detect_stream) \<Rightarrow>
          detections_loop trim fm zipped_templates delays shift_len detect_data rest st'
            (detect_streams @ [(template_name detection, detect_stream)]))"



subsection \<open>\<open>lag_calc\<close>: grouping by template\<close>

text \<open>
  Lines 224 to 228. \<open>k\<close> counts the templates, and \<open>sched k\<close> is the completion order of
  the pool of template \<open>k\<close>. The streams are sent to the workers by value.
\<close>

fun segregate :: "(real list \<Rightarrow> real list \<Rightarrow> real list) \<Rightarrow> (string \<Rightarrow> string \<Rightarrow> bool) \<Rightarrow> (nat \<Rightarrow> nat list) \<Rightarrow> real \<Rightarrow> store
    \<Rightarrow> nat \<Rightarrow> (string \<times> stream) list \<Rightarrow> (string \<times> ref list) list \<Rightarrow> event list
    \<Rightarrow> (error + event list) option" where
  "segregate xc fm sched min_cc st k [] detect_streams initial_cat = Some (Inr initial_cat)"
| "segregate xc fm sched min_cc st k (template # rest) detect_streams initial_cat =
     (let template_detections =
            map (\<lambda>detect. map (\<lambda>r. st ! r) (snd detect))
              (filter (\<lambda>detect. fst detect = fst template) detect_streams)
      in if length template_detections > 0
         then
           (case day_loop xc fm (sched k) template_detections (snd template) min_cc of
              None \<Rightarrow> None
            | Some (Inl e) \<Rightarrow> Some (Inl e)
            | Some (Inr cat) \<Rightarrow>
                segregate xc fm sched min_cc st (Suc k) rest detect_streams (initial_cat @ cat))
         else segregate xc fm sched min_cc st (Suc k) rest detect_streams initial_cat)"

subsection \<open>\<open>lag_calc\<close>\<close>

text \<open>
  The result is the state of the caller's \<open>templates\<close> list after the call, and the
  outcome: \<open>None\<close> if the call does not return, \<open>Some (Inl e)\<close> if it raises \<open>e\<close>,
  \<open>Some (Inr cat)\<close> if it returns the catalog \<open>cat\<close>. \<open>zip\<close> (Python 2, a list) stops at
  the shorter of its arguments.
\<close>

definition templates_after :: "(string \<times> stream) list \<Rightarrow> stream list \<Rightarrow> stream list" where
  "templates_after zipped_templates templates =
     map snd zipped_templates @ drop (length zipped_templates) templates"

definition lag_calc :: "(real list \<Rightarrow> real list \<Rightarrow> real list)
    \<Rightarrow> (trace \<Rightarrow> real \<Rightarrow> real \<Rightarrow> error + trace) \<Rightarrow> (string \<Rightarrow> string \<Rightarrow> bool)
    \<Rightarrow> (nat \<Rightarrow> nat list)
    \<Rightarrow> detection list \<Rightarrow> store \<Rightarrow> ref list \<Rightarrow> string list \<Rightarrow> stream list \<Rightarrow> real \<Rightarrow> real
    \<Rightarrow> stream list \<times> (error + event list) option" where
  "lag_calc xc trim fm sched detections st detect_data template_names templates shift_len min_cc =
     (case delays_loop (zip template_names templates) [] of
        (zipped_templates, Inl e) \<Rightarrow> (templates_after zipped_templates templates, Some (Inl e))
      | (zipped_templates, Inr delays) \<Rightarrow>
          (templates_after zipped_templates templates,
           case detections_loop trim fm zipped_templates delays shift_len detect_data detections
                  st [] of
             Inl e \<Rightarrow> Some (Inl e)
           | Inr (st', detect_streams) \<Rightarrow>
               segregate xc fm sched min_cc st' 0 zipped_templates detect_streams []))"

subsection \<open>The result sequence of the specification\<close>

text \<open>
  Section 3 of the specification, Result Sequence: the events in the order of the input
  detections, per template, the templates concatenated in the order of the input. This is
  a sequential definition, written from these words and not from the code, with which
  the outcome of the code is compared. \<open>collect\<close> is the first error of a list of
  outcomes, or all their values; \<open>windows\<close> holds the windowed stream of every detection
  under the name of its template, in the order of the detections.
\<close>

fun collect :: "(error + 'a) list \<Rightarrow> error + 'a list" where
  "collect [] = Inr []"
| "collect (Inl e # rs) = Inl e"
| "collect (Inr v # rs) = (case collect rs of Inl e \<Rightarrow> Inl e | Inr vs \<Rightarrow> Inr (v # vs))"

definition events_in_order :: "(real list \<Rightarrow> real list \<Rightarrow> real list) \<Rightarrow> (string \<Rightarrow> string \<Rightarrow> bool) \<Rightarrow> real \<Rightarrow> stream
    \<Rightarrow> stream list \<Rightarrow> error + event list" where
  "events_in_order xc fm min_cc template windows =
     collect (map (\<lambda>w. map_sum id snd (channel_loop xc fm w template min_cc 0)) windows)"

definition result_sequence :: "(real list \<Rightarrow> real list \<Rightarrow> real list) \<Rightarrow> (string \<Rightarrow> string \<Rightarrow> bool) \<Rightarrow> real
    \<Rightarrow> (string \<times> stream) list \<Rightarrow> (string \<times> stream) list \<Rightarrow> error + event list" where
  "result_sequence xc fm min_cc templates windows =
     map_sum id concat
       (collect (map (\<lambda>t. events_in_order xc fm min_cc (snd t)
                             (map snd (filter (\<lambda>w. fst w = fst t) windows)))
                   templates))"

subsection \<open>Inputs for evaluation\<close>

text \<open>
  Stand-ins for the parameters: \<open>fnmatch_plain\<close> is what \<open>fnmatch\<close> computes for a
  pattern without the characters \<open>*\<close>, \<open>?\<close> and \<open>[\<close>; \<open>xc_window\<close> returns the samples of
  the window as the coefficient sequence; \<open>trim_start\<close> moves the start time to the start
  of the window. \<open>mk_trace\<close> is a trace of network \<open>NZ\<close> sampled at 100 Hz.
\<close>

definition fnmatch_plain :: "string \<Rightarrow> string \<Rightarrow> bool" where
  "fnmatch_plain name pat = (name = pat)"

definition xc_window :: "real list \<Rightarrow> real list \<Rightarrow> real list" where
  "xc_window t d = d"

definition trim_start :: "trace \<Rightarrow> real \<Rightarrow> real \<Rightarrow> error + trace" where
  "trim_start tr s e = Inr (tr\<lparr>starttime := s\<rparr>)"

definition mk_trace :: "string \<Rightarrow> string \<Rightarrow> real \<Rightarrow> real list \<Rightarrow> trace" where
  "mk_trace sta chan t0 d =
     \<lparr>network = ''NZ'', station = sta, channel = chan, starttime = t0,
      sampling_rate = 100, delta = 1 / 100, data = d\<rparr>"

definition mk_pick :: "string \<Rightarrow> string \<Rightarrow> real \<Rightarrow> string option \<Rightarrow> pick" where
  "mk_pick sta chan t ph =
     \<lparr>network_code = ''NZ'', station_code = sta, channel_code = chan, time = t,
      method_id = ''EQcorrscan'', phase_hint = ph\<rparr>"

definition s_pair_template :: stream where
  "s_pair_template = [mk_trace ''STA1'' ''EHE'' 0 [1], mk_trace ''STA1'' ''EHN'' 0 [1]]"

definition s_pair_detection :: stream where
  "s_pair_detection =
     [mk_trace ''STA1'' ''EHE'' 10 [1 / 2, 1 / 5], mk_trace ''STA1'' ''EHN'' 10 [1 / 10, 9 / 10]]"

definition s_triple_template :: stream where
  "s_triple_template =
     [mk_trace ''STA1'' ''EHE'' 0 [1], mk_trace ''STA1'' ''EHN'' 0 [1],
      mk_trace ''STA1'' ''BHE'' 0 [1]]"

definition s_triple_detection :: stream where
  "s_triple_detection =
     [mk_trace ''STA1'' ''EHE'' 10 [1 / 2, 1 / 5], mk_trace ''STA1'' ''EHN'' 10 [1 / 10, 9 / 10],
      mk_trace ''STA1'' ''BHE'' 10 [1 / 10, 1 / 5, 7 / 10]]"

definition boundary_template :: stream where
  "boundary_template = [mk_trace ''STA1'' ''EHZ'' 0 [1], mk_trace ''STA1'' ''EHN'' 0 [1]]"

definition boundary_detection :: stream where
  "boundary_detection =
     [mk_trace ''STA1'' ''EHZ'' 10 [2 / 5, 3 / 10], mk_trace ''STA1'' ''EHN'' 10 [1 / 10, 9 / 10]]"

definition boundary_event :: event where
  "boundary_event = \<lparr>picks = [mk_pick ''STA1'' ''EHN'' (10 + 1 / 100) (Some ''S'')]\<rparr>"

definition late_first_template :: stream where
  "late_first_template = [mk_trace ''STA1'' ''EHN'' 5 [1], mk_trace ''STA1'' ''EHZ'' 3 [1]]"

definition xc_half :: "real list \<Rightarrow> real list \<Rightarrow> real list" where
  "xc_half t d = [1 / 2]"

definition det_t1 :: detection where
  "det_t1 = \<lparr>template_name = ''t1'', detect_time = 100\<rparr>"

definition det_nope :: detection where
  "det_nope = \<lparr>template_name = ''nope'', detect_time = 100\<rparr>"

definition data_store :: store where
  "data_store = [mk_trace ''STA1'' ''EHZ'' 90 [1 / 2, 1 / 5], mk_trace ''STA2'' ''EHZ'' 90 [1 / 2]]"

definition vertical_template :: stream where
  "vertical_template = [mk_trace ''STA1'' ''EHZ'' 0 [1]]"

definition three_detections :: "detection list" where
  "three_detections =
     [\<lparr>template_name = ''t1'', detect_time = 100\<rparr>,
      \<lparr>template_name = ''t2'', detect_time = 150\<rparr>,
      \<lparr>template_name = ''t1'', detect_time = 200\<rparr>]"

definition second_first :: "nat \<Rightarrow> nat list" where
  "second_first k = (if k = 0 then [1, 0] else [0])"

definition lower_case_store :: store where
  "lower_case_store = [mk_trace ''STA1'' ''ehz'' 90 [1 / 2, 1 / 5]]"


text \<open>
  A continuous stream whose first trace starts at 102.001 s, the start of the window of
  \<open>det_t1\<close> on \<open>STA1.EHN\<close> for \<open>shift_len\<close> = -0.001 and the delay 2 of
  \<open>late_first_template\<close>; its one sample lies in the window.
\<close>

definition short_window_store :: store where
  "short_window_store =
     [mk_trace ''STA1'' ''EHN'' (102001 / 1000) [1 / 2], mk_trace ''STA2'' ''EHZ'' 90 [1 / 2]]"

lemmas eval_defs =
  channel_loop_def channel_step_def init_state_def append_pick_def select_def Let_def
  xc_window_def mk_trace_def mk_pick_def
  fnmatch_plain_def upper_def upper_char_def

section \<open>The channel loop\<close>

subsection \<open>One step\<close>

lemma channel_step_skip:
  assumes "\<not> above_min_cc xc fm detection min_cc tr"
    and "channel_step xc fm detection min_cc tr s = Inr s'"
  shows "s' = s"
  using assms unfolding channel_step_def above_min_cc_def peak_of_def Let_def
  by (simp split: list.splits sum.splits)

lemma channel_step_above:
  assumes "above_min_cc xc fm detection min_cc tr"
  obtains pk t where "peak_of xc fm detection tr = Some pk" "min_cc < pk"
    "pick_time_of xc fm detection tr = Some t"
    "channel_step xc fm detection min_cc tr s =
       (if phase_of (channel tr) = Some ''S''
        then (case s_stachans s (station tr) of
                None \<Rightarrow> Inr (append_pick
                          (s\<lparr>s_stachans := (s_stachans s)(station tr \<mapsto> (channel tr, pk, t))\<rparr>)
                          (network tr) (station tr) (channel tr) t (Some ''S''))
              | Some (bc, bp, bt) \<Rightarrow>
                  if pk > bp
                  then Inr (append_pick s (network tr) (station tr) (channel tr) t (Some ''S''))
                  else Inr (append_pick s (network tr) (station tr) bc bt (Some ''S'')))
        else Inr (append_pick s (network tr) (station tr) (channel tr) t (phase_of (channel tr))))"
proof -
  from assms obtain im rest pk where
    sel: "select fm detection (station tr) (channel tr) = im # rest" and
    am: "amax (xc (data tr) (data im)) = Inr pk" and gt: "min_cc < pk"
    unfolding above_min_cc_def peak_of_def
    by (auto split: list.splits sum.splits option.splits)
  let ?t = "starttime im + real (argmax (xc (data tr) (data im))) * delta im"
  have 1: "peak_of xc fm detection tr = Some pk"
    using sel am by (simp add: peak_of_def)
  have 2: "pick_time_of xc fm detection tr = Some ?t"
    using sel by (simp add: pick_time_of_def)
  have 3: "channel_step xc fm detection min_cc tr s =
       (if phase_of (channel tr) = Some ''S''
        then (case s_stachans s (station tr) of
                None \<Rightarrow> Inr (append_pick
                          (s\<lparr>s_stachans := (s_stachans s)(station tr \<mapsto> (channel tr, pk, ?t))\<rparr>)
                          (network tr) (station tr) (channel tr) ?t (Some ''S''))
              | Some (bc, bp, bt) \<Rightarrow>
                  if pk > bp
                  then Inr (append_pick s (network tr) (station tr) (channel tr) ?t (Some ''S''))
                  else Inr (append_pick s (network tr) (station tr) bc bt (Some ''S'')))
        else Inr (append_pick s (network tr) (station tr) (channel tr) ?t (phase_of (channel tr))))"
    using sel am gt unfolding channel_step_def Let_def phase_of_def
    by (simp split: option.splits)
  from 1 gt 2 3 show thesis by (rule that)
qed

lemma picks_append_pick:
  "picks (ev (append_pick s net sta chan t ph)) =
     picks (ev s) @ [\<lparr>network_code = net, station_code = sta, channel_code = chan, time = t,
          method_id = ''EQcorrscan'', phase_hint = ph\<rparr>]"
  by (simp add: append_pick_def)

lemma s_stachans_append_pick:
  "s_stachans (append_pick s net sta chan t ph) = s_stachans s"
  by (simp add: append_pick_def)

lemma channel_step_count:
  assumes "channel_step xc fm detection min_cc tr s = Inr s'"
  shows "length (picks (ev s')) =
     length (picks (ev s)) + (if above_min_cc xc fm detection min_cc tr then 1 else 0)"
proof (cases "above_min_cc xc fm detection min_cc tr")
  case False
  from channel_step_skip [OF False assms] False show ?thesis by simp
next
  case True
  then obtain pk t where "channel_step xc fm detection min_cc tr s =
       (if phase_of (channel tr) = Some ''S''
        then (case s_stachans s (station tr) of
                None \<Rightarrow> Inr (append_pick
                          (s\<lparr>s_stachans := (s_stachans s)(station tr \<mapsto> (channel tr, pk, t))\<rparr>)
                          (network tr) (station tr) (channel tr) t (Some ''S''))
              | Some (bc, bp, bt) \<Rightarrow>
                  if pk > bp
                  then Inr (append_pick s (network tr) (station tr) (channel tr) t (Some ''S''))
                  else Inr (append_pick s (network tr) (station tr) bc bt (Some ''S'')))
        else Inr (append_pick s (network tr) (station tr) (channel tr) t (phase_of (channel tr))))"
    by (rule channel_step_above)
  with assms True show ?thesis
    by (auto simp: picks_append_pick split: if_splits option.splits)
qed

lemma channel_step_inv:
  assumes step: "channel_step xc fm detection min_cc tr s = Inr s'"
    and inv: "state_inv xc fm detection min_cc T s" and mem: "tr \<in> T"
  shows "state_inv xc fm detection min_cc T s'"
proof (cases "above_min_cc xc fm detection min_cc tr")
  case False
  from channel_step_skip [OF False step] inv show ?thesis by simp
next
  case True
  then obtain pk t where pk: "peak_of xc fm detection tr = Some pk"
    and t: "pick_time_of xc fm detection tr = Some t"
    and eq: "channel_step xc fm detection min_cc tr s =
       (if phase_of (channel tr) = Some ''S''
        then (case s_stachans s (station tr) of
                None \<Rightarrow> Inr (append_pick
                          (s\<lparr>s_stachans := (s_stachans s)(station tr \<mapsto> (channel tr, pk, t))\<rparr>)
                          (network tr) (station tr) (channel tr) t (Some ''S''))
              | Some (bc, bp, bt) \<Rightarrow>
                  if pk > bp
                  then Inr (append_pick s (network tr) (station tr) (channel tr) t (Some ''S''))
                  else Inr (append_pick s (network tr) (station tr) bc bt (Some ''S'')))
        else Inr (append_pick s (network tr) (station tr) (channel tr) t (phase_of (channel tr))))"
    by (rule channel_step_above)
  have own: "pick_origin xc fm detection min_cc tr
      \<lparr>network_code = n, station_code = station tr, channel_code = channel tr, time = t,
          method_id = m, phase_hint = phase_of (channel tr)\<rparr>" for n m
    using True t by (simp add: pick_origin_def)
  show ?thesis
  proof (cases "phase_of (channel tr) = Some ''S''")
    case notS: False
    with eq step have s': "s' = append_pick s (network tr) (station tr) (channel tr) t (phase_of (channel tr))"
      by simp
    show ?thesis
      using inv mem own unfolding state_inv_def s' picks_append_pick s_stachans_append_pick
      by auto
  next
    case S: True
    show ?thesis
    proof (cases "s_stachans s (station tr)")
      case None
      with eq step S have s': "s' = append_pick
                          (s\<lparr>s_stachans := (s_stachans s)(station tr \<mapsto> (channel tr, pk, t))\<rparr>)
                          (network tr) (station tr) (channel tr) t (phase_of (channel tr))"
        by simp
      show ?thesis
        using inv mem own True pk t S unfolding state_inv_def s' picks_append_pick s_stachans_append_pick
        by auto
    next
      case (Some b)
      then obtain bc bp bt where b: "s_stachans s (station tr) = Some (bc, bp, bt)"
        by (cases b) auto
      from inv b obtain tr0 where tr0: "tr0 \<in> T" "station tr0 = station tr" "channel tr0 = bc"
        "phase_of bc = Some ''S''" "above_min_cc xc fm detection min_cc tr0"
        "pick_time_of xc fm detection tr0 = Some bt"
        unfolding state_inv_def by blast
      have prev: "pick_origin xc fm detection min_cc tr0
        \<lparr>network_code = n, station_code = station tr, channel_code = bc, time = bt,
          method_id = m, phase_hint = Some ''S''\<rparr>" for n m
        using tr0 by (simp add: pick_origin_def)
      from eq step S b have "s' = append_pick s (network tr) (station tr) (channel tr) t (phase_of (channel tr))
         \<or> s' = append_pick s (network tr) (station tr) bc bt (Some ''S'')"
        by (auto split: if_splits)
      then show ?thesis
      proof
        assume s': "s' = append_pick s (network tr) (station tr) (channel tr) t (phase_of (channel tr))"
        show ?thesis
          using inv mem own unfolding state_inv_def s' picks_append_pick s_stachans_append_pick
          by auto
      next
        assume s': "s' = append_pick s (network tr) (station tr) bc bt (Some ''S'')"
        show ?thesis
          using inv tr0(1) prev unfolding state_inv_def s' picks_append_pick s_stachans_append_pick
          by auto
      qed
    qed
  qed
qed

lemma channel_steps_inv:
  assumes "channel_steps xc fm detection min_cc trs s = Inr s'"
    and "state_inv xc fm detection min_cc T s" and "set trs \<subseteq> T"
  shows "state_inv xc fm detection min_cc T s'"
  using assms
proof (induction trs arbitrary: s)
  case Nil
  then show ?case by simp
next
  case (Cons tr trs)
  from Cons.prems(1) obtain s1 where s1: "channel_step xc fm detection min_cc tr s = Inr s1"
    and rest: "channel_steps xc fm detection min_cc trs s1 = Inr s'"
    by (auto split: sum.splits)
  from Cons.prems have "state_inv xc fm detection min_cc T s1"
    using channel_step_inv [OF s1] by simp
  with Cons.IH [OF rest] Cons.prems(3) show ?case by simp
qed

lemma channel_steps_count:
  assumes "channel_steps xc fm detection min_cc trs s = Inr s'"
  shows "length (picks (ev s')) =
     length (picks (ev s)) + length (filter (above_min_cc xc fm detection min_cc) trs)"
  using assms
proof (induction trs arbitrary: s)
  case Nil
  then show ?case by simp
next
  case (Cons tr trs)
  from Cons.prems(1) obtain s1 where s1: "channel_step xc fm detection min_cc tr s = Inr s1"
    and rest: "channel_steps xc fm detection min_cc trs s1 = Inr s'"
    by (auto split: sum.splits)
  from channel_step_count [OF s1] Cons.IH [OF rest] show ?case by simp
qed

lemma state_inv_init: "state_inv xc fm detection min_cc T init_state"
  by (simp add: state_inv_def init_state_def)

lemma channel_loop_inv:
  assumes "channel_loop xc fm detection template min_cc i = Inr (j, e)"
  shows "j = i" and "\<forall>p \<in> set (picks e). \<exists>tr \<in> set template. pick_origin xc fm detection min_cc tr p"
    and "length (picks e) = length (filter (above_min_cc xc fm detection min_cc) template)"
proof -
  from assms obtain s where s: "channel_steps xc fm detection min_cc template init_state = Inr s"
    and e: "e = ev s" and j: "j = i"
    by (auto simp: channel_loop_def split: sum.splits)
  show "j = i" by (rule j)
  from channel_steps_inv [OF s state_inv_init] e
  show "\<forall>p \<in> set (picks e). \<exists>tr \<in> set template. pick_origin xc fm detection min_cc tr p"
    by (simp add: state_inv_def)
  from channel_steps_count [OF s] e
  show "length (picks e) = length (filter (above_min_cc xc fm detection min_cc) template)"
    by (simp add: init_state_def)
qed

lemma fold_max_Max: "fold max xs (x::real) = Max (insert x (set xs))"
  using Max.set_eq_fold [of x xs] by simp

lemma first_index_nth: "v \<in> set xs \<Longrightarrow> first_index v xs < length xs \<and> xs ! first_index v xs = v"
  by (induction xs) auto

lemma first_index_least: "j < first_index v xs \<Longrightarrow> xs ! j \<noteq> v"
  by (induction xs arbitrary: j) (auto simp: nth_Cons split: nat.splits if_splits)

lemma argmax_Max:
  assumes "xs \<noteq> []"
  shows "argmax xs < length xs" and "xs ! argmax xs = Max (set xs)"
    and "\<forall>j < argmax xs. xs ! j < Max (set xs)"
proof -
  from assms obtain y ys where xs: "xs = y # ys" by (cases xs) auto
  have mem: "Max (set xs) \<in> set xs" using assms by (intro Max_in) auto
  have am: "argmax xs = first_index (Max (set xs)) xs"
    unfolding xs by (simp add: fold_max_Max)
  from first_index_nth [OF mem] am show "argmax xs < length xs" "xs ! argmax xs = Max (set xs)"
    by simp_all
  show "\<forall>j < argmax xs. xs ! j < Max (set xs)"
  proof (intro allI impI)
    fix j assume j: "j < argmax xs"
    with am have ne: "xs ! j \<noteq> Max (set xs)" by (simp add: first_index_least)
    from j \<open>argmax xs < length xs\<close> have "xs ! j \<in> set xs" by simp
    then have "xs ! j \<le> Max (set xs)" by simp
    with ne show "xs ! j < Max (set xs)" by simp
  qed
qed

lemma amax_Max: "amax xs = Inr m \<longleftrightarrow> xs \<noteq> [] \<and> m = Max (set xs)"
  by (cases xs) (auto simp: fold_max_Max)

subsection \<open>Claims about the picks\<close>

text \<open>
  C1. The claim: the event returned for a detection has at most one S pick per station.
  The code appends a pick for every horizontal channel above \<open>min_cc\<close>: the first one of a
  station when it records it in \<open>s_stachans\<close>, and one more for every later one. For a
  template with the channels \<open>EHE\<close> and \<open>EHN\<close> of station \<open>STA1\<close>, with peaks 0.5 and 0.9
  above \<open>min_cc\<close> = 0.4, the event has two S picks of \<open>STA1\<close>.
\<close>

theorem channel_loop_two_S_picks:
  "channel_loop xc_window fnmatch_plain s_pair_detection s_pair_template (2 / 5) 0 =
     Inr (0, \<lparr>picks = [mk_pick ''STA1'' ''EHE'' 10 (Some ''S''),
                       mk_pick ''STA1'' ''EHN'' (10 + 1 / 100) (Some ''S'')]\<rparr>)"
  by (simp add: eval_defs s_pair_detection_def s_pair_template_def)

text \<open>
  C3. A pick comes only from a channel whose peak is strictly greater than \<open>min_cc\<close>:
  every pick of the returned event carries the station and channel of a template trace
  whose peak exceeds \<open>min_cc\<close>, and the event has exactly as many picks as the template
  has such traces, so a channel whose peak equals \<open>min_cc\<close> gives none.
\<close>

theorem picks_only_above_min_cc:
  assumes "channel_loop xc fm detection template min_cc i = Inr (j, e)"
  shows "(\<forall>p \<in> set (picks e). \<exists>tr \<in> set template.
            above_min_cc xc fm detection min_cc tr \<and>
            station_code p = station tr \<and> channel_code p = channel tr) \<and>
         length (picks e) = length (filter (above_min_cc xc fm detection min_cc) template)"
  using channel_loop_inv(2,3) [OF assms] unfolding pick_origin_def by blast

theorem picks_only_above_min_cc_witness:
  "channel_loop xc_window fnmatch_plain boundary_detection boundary_template (2 / 5) 0
     = Inr (0, boundary_event) \<and>
   (\<exists>tr \<in> set boundary_template.
       above_min_cc xc_window fnmatch_plain boundary_detection (2 / 5) tr \<and>
       station_code (mk_pick ''STA1'' ''EHN'' (10 + 1 / 100) (Some ''S'')) = station tr \<and>
       channel_code (mk_pick ''STA1'' ''EHN'' (10 + 1 / 100) (Some ''S'')) = channel tr) \<and>
   length (picks boundary_event)
     = length (filter (above_min_cc xc_window fnmatch_plain boundary_detection (2 / 5)) boundary_template) \<and>
   length (picks boundary_event) = 1"
proof -
  have h: "channel_loop xc_window fnmatch_plain boundary_detection boundary_template (2 / 5) 0
     = Inr (0, boundary_event)"
    by (simp add: eval_defs boundary_detection_def boundary_template_def boundary_event_def)
  have m: "mk_pick ''STA1'' ''EHN'' (10 + 1 / 100) (Some ''S'') \<in> set (picks boundary_event)"
    by (simp add: boundary_event_def)
  have n: "length (picks boundary_event) = 1"
    by (simp add: boundary_event_def)
  from picks_only_above_min_cc [OF h] m h n show ?thesis by blast
qed

text \<open>
  C5. The claim: when a station has a recorded best and the peak of the current
  horizontal channel exceeds \<open>min_cc\<close> and the recorded peak, the pick carries the
  channel and time of the current channel, and the record is replaced by the current
  channel, so that later channels are compared with the new peak. The code emits that
  pick but never writes \<open>s_stachans\<close> again (line 64 is \<open>picktime = picktime\<close>). With the
  peaks 0.5, 0.9 and 0.7 on \<open>EHE\<close>, \<open>EHN\<close> and \<open>BHE\<close> of one station, the record still
  holds \<open>EHE\<close> with 0.5 at the end, and the third channel, compared with 0.5, gets a pick
  of its own.
\<close>

theorem s_stachans_keeps_first:
  "(case channel_steps xc_window fnmatch_plain s_triple_detection (2 / 5) s_triple_template init_state of
      Inl e \<Rightarrow> False
    | Inr s \<Rightarrow>
        s_stachans s ''STA1'' = Some (''EHE'', 1 / 2, 10) \<and>
        picks (ev s) = [mk_pick ''STA1'' ''EHE'' 10 (Some ''S''),
                        mk_pick ''STA1'' ''EHN'' (10 + 1 / 100) (Some ''S''),
                        mk_pick ''STA1'' ''BHE'' (10 + 2 / 100) (Some ''S'')])"
  by (simp add: eval_defs s_triple_detection_def s_triple_template_def)

text \<open>
  C8. The time of every pick of the returned event is the start time of the windowed
  trace of its station and channel plus the position of the maximum of the correlation
  sequence times the sample interval of that trace, and its phase hint is \<open>P\<close> for a
  channel code ending in \<open>Z\<close>, \<open>S\<close> for one ending in \<open>E\<close> or \<open>N\<close>, and none otherwise.
\<close>

theorem pick_time_and_phase:
  assumes "channel_loop xc fm detection template min_cc i = Inr (j, e)"
    and "p \<in> set (picks e)"
  shows "\<exists>tr \<in> set template. \<exists>im rest.
           select fm detection (station tr) (channel tr) = im # rest \<and>
           station_code p = station tr \<and> channel_code p = channel tr \<and>
           xc (data tr) (data im) \<noteq> [] \<and>
           argmax (xc (data tr) (data im)) < length (xc (data tr) (data im)) \<and>
           xc (data tr) (data im) ! argmax (xc (data tr) (data im))
             = Max (set (xc (data tr) (data im))) \<and>
           time p = starttime im + real (argmax (xc (data tr) (data im))) * delta im \<and>
           phase_hint p =
             (if last_char (channel_code p) = ''Z'' then Some ''P''
              else if last_char (channel_code p) = ''E'' \<or> last_char (channel_code p) = ''N''
              then Some ''S'' else None)"
proof -
  from channel_loop_inv(2) [OF assms(1)] assms(2)
  obtain tr where tr: "tr \<in> set template" and po: "pick_origin xc fm detection min_cc tr p"
    by blast
  from po obtain im rest pk where sel: "select fm detection (station tr) (channel tr) = im # rest"
    and am: "amax (xc (data tr) (data im)) = Inr pk"
    unfolding pick_origin_def above_min_cc_def peak_of_def
    by (auto split: list.splits sum.splits option.splits)
  from am have ne: "xc (data tr) (data im) \<noteq> []" by (simp add: amax_Max)
  from po sel have t: "time p = starttime im + real (argmax (xc (data tr) (data im))) * delta im"
    and c: "station_code p = station tr" "channel_code p = channel tr"
    and ph: "phase_hint p = phase_of (channel tr)"
    unfolding pick_origin_def pick_time_of_def by simp_all
  from ph c have ph': "phase_hint p =
             (if last_char (channel_code p) = ''Z'' then Some ''P''
              else if last_char (channel_code p) = ''E'' \<or> last_char (channel_code p) = ''N''
              then Some ''S'' else None)"
    by (simp add: phase_of_def)
  from tr sel c ne argmax_Max(1,2) [OF ne] t ph' show ?thesis by blast
qed

theorem pick_time_and_phase_witness:
  "channel_loop xc_window fnmatch_plain boundary_detection boundary_template (2 / 5) 0
     = Inr (0, boundary_event) \<and>
   mk_pick ''STA1'' ''EHN'' (10 + 1 / 100) (Some ''S'') \<in> set (picks boundary_event) \<and>
   (\<exists>tr \<in> set boundary_template. \<exists>im rest.
       select fnmatch_plain boundary_detection (station tr) (channel tr) = im # rest \<and>
       station_code (mk_pick ''STA1'' ''EHN'' (10 + 1 / 100) (Some ''S'')) = station tr \<and>
       channel_code (mk_pick ''STA1'' ''EHN'' (10 + 1 / 100) (Some ''S'')) = channel tr \<and>
       xc_window (data tr) (data im) \<noteq> [] \<and>
       argmax (xc_window (data tr) (data im)) < length (xc_window (data tr) (data im)) \<and>
       xc_window (data tr) (data im) ! argmax (xc_window (data tr) (data im))
         = Max (set (xc_window (data tr) (data im))) \<and>
       time (mk_pick ''STA1'' ''EHN'' (10 + 1 / 100) (Some ''S''))
         = starttime im + real (argmax (xc_window (data tr) (data im))) * delta im \<and>
       phase_hint (mk_pick ''STA1'' ''EHN'' (10 + 1 / 100) (Some ''S'')) =
         (if last_char (channel_code (mk_pick ''STA1'' ''EHN'' (10 + 1 / 100) (Some ''S''))) = ''Z''
          then Some ''P''
          else if last_char (channel_code (mk_pick ''STA1'' ''EHN'' (10 + 1 / 100) (Some ''S''))) = ''E''
                \<or> last_char (channel_code (mk_pick ''STA1'' ''EHN'' (10 + 1 / 100) (Some ''S''))) = ''N''
          then Some ''S'' else None))"
proof -
  have h: "channel_loop xc_window fnmatch_plain boundary_detection boundary_template (2 / 5) 0
     = Inr (0, boundary_event)"
    by (simp add: eval_defs boundary_detection_def boundary_template_def boundary_event_def)
  have m: "mk_pick ''STA1'' ''EHN'' (10 + 1 / 100) (Some ''S'') \<in> set (picks boundary_event)"
    by (simp add: boundary_event_def)
  from h m pick_time_and_phase [OF h m] show ?thesis by (intro conjI)
qed

section \<open>The delay table\<close>

lemma sort_key_twice: "sort_key f (sort_key f xs) = sort_key f xs"
  by (simp add: sort_key_id_if_sorted)

lemma sort_key_Nil_iff: "sort_key f xs = [] \<longleftrightarrow> xs = []"
  by (metis length_sort length_0_conv)

lemma hd_sorted_Min:
  fixes ys :: "real list"
  assumes "sorted ys" "ys \<noteq> []"
  shows "hd ys = Min (set ys)"
proof -
  from assms obtain y rest where ys: "ys = y # rest" by (cases ys) auto
  with assms(1) have "\<forall>z \<in> set ys. y \<le> z" by auto
  then have "Min (set ys) = y" using ys by (intro Min_eqI) auto
  with ys show ?thesis by simp
qed

lemma starttime_hd_sort_key:
  assumes "tmpl \<noteq> []"
  shows "starttime (hd (sort_key starttime tmpl)) = Min (starttime ` set tmpl)"
proof -
  let ?s = "sort_key starttime tmpl"
  have ne: "?s \<noteq> []" using assms by (simp add: sort_key_Nil_iff)
  have "hd (map starttime ?s) = Min (set (map starttime ?s))"
    using ne by (intro hd_sorted_Min) simp_all
  with ne show ?thesis by (simp add: hd_map)
qed

lemma delay_loop_eq:
  assumes "tmpl \<noteq> []"
  shows "delay_loop trs tmpl temp_delays =
    ((if trs = [] then tmpl else sort_key starttime tmpl),
     Inr (temp_delays @
       map (\<lambda>tr. (station tr, channel tr, starttime tr - Min (starttime ` set tmpl))) trs))"
  using assms
proof (induction trs arbitrary: tmpl temp_delays)
  case Nil
  then show ?case by simp
next
  case (Cons tr trs)
  let ?s = "sort_key starttime tmpl"
  from Cons.prems have ne: "?s \<noteq> []" by (simp add: sort_key_Nil_iff)
  then obtain first rest where s: "?s = first # rest" by (cases ?s) auto
  have first: "starttime first = Min (starttime ` set tmpl)"
    using starttime_hd_sort_key [OF Cons.prems] s by simp
  have "delay_loop (tr # trs) tmpl temp_delays =
      delay_loop trs ?s (temp_delays @ [(station tr, channel tr, starttime tr - starttime first)])"
    using s by (simp add: Let_def)
  also have "\<dots> = ((if trs = [] then ?s else sort_key starttime ?s),
      Inr ((temp_delays @ [(station tr, channel tr, starttime tr - starttime first)]) @
        map (\<lambda>tr. (station tr, channel tr, starttime tr - Min (starttime ` set ?s))) trs))"
    by (rule Cons.IH [OF ne])
  finally show ?case by (simp add: first sort_key_twice)
qed

lemma delay_loop_self:
  "delay_loop tmpl tmpl [] = (sort_key starttime tmpl, Inr (template_delays tmpl))"
proof (cases "tmpl = []")
  case True
  then show ?thesis by (simp add: template_delays_def)
next
  case False
  then show ?thesis by (simp add: delay_loop_eq template_delays_def)
qed

lemma delays_loop_eq:
  "delays_loop zipped delays =
     (map (\<lambda>t. (fst t, sort_key starttime (snd t))) zipped,
      Inr (delays @ map (\<lambda>t. (fst t, template_delays (snd t))) zipped))"
  by (induction zipped arbitrary: delays) (simp_all add: delay_loop_self)

lemma lag_calc_templates:
  "fst (lag_calc xc trim fm sched detections st detect_data template_names templates shift_len min_cc)
     = map (sort_key starttime) (take (length template_names) templates)
       @ drop (length template_names) templates"
proof -
  have "map snd (map (\<lambda>t. (fst t, sort_key starttime (snd t))) (zip template_names templates))
      = map (sort_key starttime) (take (length template_names) templates)"
    by (cases "length template_names \<le> length templates")
      (simp_all add: map_snd_zip_take o_def min_def
         flip: map_map [of "sort_key starttime" snd, unfolded o_def])
  then show ?thesis
    by (cases "length template_names \<le> length templates")
      (simp_all add: lag_calc_def delays_loop_eq templates_after_def min_def)
qed

text \<open>
  C7. The delay table has one entry per template, under the name of the template, and the
  entry lists for every channel of the template, in order, its start time minus the least
  start time among the channels of that template. Every offset is at least 0, and for a
  template with a channel, a channel that starts at the least start time has offset 0.
\<close>

theorem delay_table_offsets:
  "\<exists>zs delays. delays_loop zipped [] = (zs, Inr delays) \<and> length delays = length zipped \<and>
     (\<forall>k < length zipped.
        fst (delays ! k) = fst (zipped ! k) \<and>
        snd (delays ! k) =
          map (\<lambda>tr. (station tr, channel tr,
                      starttime tr - Min (starttime ` set (snd (zipped ! k)))))
            (snd (zipped ! k)) \<and>
        (\<forall>d \<in> set (snd (delays ! k)). 0 \<le> snd (snd d)) \<and>
        (snd (zipped ! k) \<noteq> [] \<longrightarrow>
           (\<exists>j < length (snd (zipped ! k)).
              starttime (snd (zipped ! k) ! j) = Min (starttime ` set (snd (zipped ! k))) \<and>
              snd (snd (snd (delays ! k) ! j)) = 0)))"
proof -
  let ?delays = "map (\<lambda>t. (fst t, template_delays (snd t))) zipped"
  have run: "delays_loop zipped [] =
      (map (\<lambda>t. (fst t, sort_key starttime (snd t))) zipped, Inr ?delays)"
    by (simp add: delays_loop_eq)
  have main: "fst (?delays ! k) = fst (zipped ! k) \<and>
        snd (?delays ! k) =
          map (\<lambda>tr. (station tr, channel tr,
                      starttime tr - Min (starttime ` set (snd (zipped ! k)))))
            (snd (zipped ! k)) \<and>
        (\<forall>d \<in> set (snd (?delays ! k)). 0 \<le> snd (snd d)) \<and>
        (snd (zipped ! k) \<noteq> [] \<longrightarrow>
           (\<exists>j < length (snd (zipped ! k)).
              starttime (snd (zipped ! k) ! j) = Min (starttime ` set (snd (zipped ! k))) \<and>
              snd (snd (snd (?delays ! k) ! j)) = 0))" if k: "k < length zipped" for k
  proof -
    let ?tmpl = "snd (zipped ! k)"
    have nth: "?delays ! k = (fst (zipped ! k), template_delays ?tmpl)"
      using k by simp
    have nonneg: "\<forall>d \<in> set (template_delays ?tmpl). 0 \<le> snd (snd d)"
      by (auto simp: template_delays_def)
    have zero: "\<exists>j < length ?tmpl. starttime (?tmpl ! j) = Min (starttime ` set ?tmpl) \<and>
              snd (snd (template_delays ?tmpl ! j)) = 0" if ne: "?tmpl \<noteq> []"
    proof -
      have "Min (starttime ` set ?tmpl) \<in> starttime ` set ?tmpl"
        using ne by (intro Min_in) auto
      then obtain tr where "tr \<in> set ?tmpl" "starttime tr = Min (starttime ` set ?tmpl)"
        by auto
      then obtain j where "j < length ?tmpl" "starttime (?tmpl ! j) = Min (starttime ` set ?tmpl)"
        by (auto simp: in_set_conv_nth)
      then show ?thesis by (auto simp: template_delays_def)
    qed
    show ?thesis
      unfolding nth using nonneg zero by (simp add: template_delays_def)
  qed
  have len: "length ?delays = length zipped" by simp
  from run len main show ?thesis by blast
qed

theorem delay_table_offsets_witness:
  "\<exists>zs delays. delays_loop [(''t1'', late_first_template)] [] = (zs, Inr delays) \<and>
     fst (delays ! 0) = ''t1'' \<and>
     snd (delays ! 0) = [(''STA1'', ''EHN'', 2), (''STA1'', ''EHZ'', 0)]"
proof -
  from delay_table_offsets [of "[(''t1'', late_first_template)]"]
  obtain zs delays where
    run: "delays_loop [(''t1'', late_first_template)] [] = (zs, Inr delays)" and
    all: "\<forall>k < length [(''t1'', late_first_template)].
        fst (delays ! k) = fst ([(''t1'', late_first_template)] ! k) \<and>
        snd (delays ! k) =
          map (\<lambda>tr. (station tr, channel tr,
                      starttime tr - Min (starttime ` set (snd ([(''t1'', late_first_template)] ! k)))))
            (snd ([(''t1'', late_first_template)] ! k)) \<and>
        (\<forall>d \<in> set (snd (delays ! k)). 0 \<le> snd (snd d)) \<and>
        (snd ([(''t1'', late_first_template)] ! k) \<noteq> [] \<longrightarrow>
           (\<exists>j < length (snd ([(''t1'', late_first_template)] ! k)).
              starttime (snd ([(''t1'', late_first_template)] ! k) ! j)
                = Min (starttime ` set (snd ([(''t1'', late_first_template)] ! k))) \<and>
              snd (snd (snd (delays ! k) ! j)) = 0))"
    by blast
  from all have "fst (delays ! 0) = ''t1'' \<and>
     snd (delays ! 0) = [(''STA1'', ''EHN'', 2), (''STA1'', ''EHZ'', 0)]"
    by (simp add: late_first_template_def mk_trace_def)
  with run show ?thesis by blast
qed

text \<open>
  C10. \<open>lag_calc\<close> changes the caller's templates: whatever the outcome of the call, every
  template that has a name (\<open>zip\<close> pairs names and templates and stops at the shorter list)
  is afterwards sorted by start time, stably, with the same traces as before.
\<close>

theorem lag_calc_sorts_templates:
  assumes "i < length templates" and "i < length template_names"
  shows "length (fst (lag_calc xc trim fm sched detections st detect_data template_names templates
                   shift_len min_cc)) = length templates \<and>
    fst (lag_calc xc trim fm sched detections st detect_data template_names templates
           shift_len min_cc) ! i = sort_key starttime (templates ! i) \<and>
    sorted (map starttime (fst (lag_calc xc trim fm sched detections st detect_data template_names
           templates shift_len min_cc) ! i)) \<and>
    mset (fst (lag_calc xc trim fm sched detections st detect_data template_names templates
           shift_len min_cc) ! i) = mset (templates ! i)"
proof -
  have "fst (lag_calc xc trim fm sched detections st detect_data template_names templates
           shift_len min_cc) ! i = sort_key starttime (templates ! i)"
    using assms by (simp add: lag_calc_templates nth_append)
  moreover have "length (fst (lag_calc xc trim fm sched detections st detect_data template_names
           templates shift_len min_cc)) = length templates"
    by (simp add: lag_calc_templates)
  ultimately show ?thesis by simp
qed

theorem lag_calc_sorts_templates_witness:
  "(0::nat) < length [late_first_template] \<and> (0::nat) < length [''t1''] \<and>
   fst (lag_calc xc_window trim_start fnmatch_plain (\<lambda>k. []) [] [] [] [''t1''] [late_first_template]
          (1 / 5) (2 / 5)) ! 0
     = [mk_trace ''STA1'' ''EHZ'' 3 [1], mk_trace ''STA1'' ''EHN'' 5 [1]] \<and>
   late_first_template = [mk_trace ''STA1'' ''EHN'' 5 [1], mk_trace ''STA1'' ''EHZ'' 3 [1]]"
proof -
  have h1: "(0::nat) < length [late_first_template]" and h2: "(0::nat) < length [''t1'']"
    by simp_all
  from lag_calc_sorts_templates [OF h1 h2, of xc_window trim_start fnmatch_plain "\<lambda>k. []" "[]" "[]" "[]"
      "1 / 5" "2 / 5"]
  show ?thesis
    by (simp add: late_first_template_def mk_trace_def)
qed

section \<open>The order of the result\<close>

subsection \<open>The pool\<close>

lemma pool_run_apply:
  "pool_run task sched slots i = (if i \<in> set sched then Some (task i) else slots i)"
  by (induction sched arbitrary: slots) auto

lemma channel_loop_tag:
  "channel_loop xc fm d tmpl min_cc i =
     (case channel_loop xc fm d tmpl min_cc 0 of Inl e \<Rightarrow> Inl e | Inr r \<Rightarrow> Inr (i, snd r))"
  by (simp add: channel_loop_def split: sum.splits)

lemma collect_length: "collect rs = Inr vs \<Longrightarrow> length vs = length rs"
proof (induction rs arbitrary: vs)
  case Nil
  then show ?case by simp
next
  case (Cons r rs)
  then show ?case by (cases r) (auto split: sum.splits)
qed

lemma get_all_filled:
  assumes "\<forall>i \<in> set idxs. slots i = Some (channel_loop xc fm (ds ! i) tmpl min_cc i)"
  shows "get_all slots idxs =
     Some (case events_in_order xc fm min_cc tmpl (map ((!) ds) idxs) of
             Inl e \<Rightarrow> Inl e
           | Inr evs \<Rightarrow> Inr (zip idxs evs))"
  using assms
proof (induction idxs)
  case Nil
  then show ?case by (simp add: events_in_order_def)
next
  case (Cons i idxs)
  from Cons.prems have slot: "slots i = Some (channel_loop xc fm (ds ! i) tmpl min_cc i)"
    and rest: "\<forall>j \<in> set idxs. slots j = Some (channel_loop xc fm (ds ! j) tmpl min_cc j)"
    by simp_all
  note IH = Cons.IH [OF rest]
  show ?case
  proof (cases "channel_loop xc fm (ds ! i) tmpl min_cc 0")
    case (Inl e)
    then have "channel_loop xc fm (ds ! i) tmpl min_cc i = Inl e"
      by (subst channel_loop_tag) simp
    with slot Inl show ?thesis by (simp add: events_in_order_def)
  next
    case (Inr r)
    then have "channel_loop xc fm (ds ! i) tmpl min_cc i = Inr (i, snd r)"
      by (subst channel_loop_tag) simp
    with slot Inr IH show ?thesis
      by (simp add: events_in_order_def split: sum.splits)
  qed
qed

lemma day_loop_eq:
  assumes "ds \<noteq> []" and "{..<length ds} \<subseteq> set sched"
  shows "day_loop xc fm sched ds tmpl min_cc = Some (events_in_order xc fm min_cc tmpl ds)"
proof -
  let ?slots = "pool_run (\<lambda>i. channel_loop xc fm (ds ! i) tmpl min_cc i) sched Map.empty"
  have "\<forall>i \<in> set [0..<length ds]. ?slots i = Some (channel_loop xc fm (ds ! i) tmpl min_cc i)"
    using assms(2) by (auto simp: pool_run_apply)
  from get_all_filled [OF this]
  have ga: "get_all ?slots [0..<length ds] =
     Some (case events_in_order xc fm min_cc tmpl ds of
             Inl e \<Rightarrow> Inl e
           | Inr evs \<Rightarrow> Inr (zip [0..<length ds] evs))"
    by (simp add: map_nth)
  show ?thesis
  proof (cases "events_in_order xc fm min_cc tmpl ds")
    case (Inl e)
    with ga assms(1) show ?thesis by (simp add: day_loop_def)
  next
    case (Inr evs)
    then have len: "length evs = length ds"
      by (auto simp: events_in_order_def dest: collect_length)
    then have keys: "map fst (zip [0..<length ds] evs) = [0..<length ds]"
      and vals: "map snd (zip [0..<length ds] evs) = evs"
      by simp_all
    have "sorted (map fst (zip [0..<length ds] evs))"
      unfolding keys by simp
    then have "sort_key fst (zip [0..<length ds] evs) = zip [0..<length ds] evs"
      by (rule sort_key_id_if_sorted)
    with ga Inr vals assms(1) show ?thesis by (simp add: day_loop_def)
  qed
qed

subsection \<open>The groups\<close>

lemma segregate_eq:
  assumes "\<forall>j < length ts.
      {..<length (filter (\<lambda>w. fst w = fst (ts ! j)) dss)} \<subseteq> set (sched (k + j))"
  shows "segregate xc fm sched min_cc st k ts dss cat =
     Some (case result_sequence xc fm min_cc ts (map (\<lambda>w. (fst w, map ((!) st) (snd w))) dss) of
             Inl e \<Rightarrow> Inl e
           | Inr evs \<Rightarrow> Inr (cat @ evs))"
  using assms
proof (induction ts arbitrary: k cat)
  case Nil
  then show ?case by (simp add: result_sequence_def)
next
  case (Cons t ts)
  let ?ws = "map (\<lambda>w. (fst w, map ((!) st) (snd w))) dss"
  let ?group = "map (\<lambda>detect. map ((!) st) (snd detect)) (filter (\<lambda>detect. fst detect = fst t) dss)"
  have group: "map snd (filter (\<lambda>w. fst w = fst t) ?ws) = ?group"
    by (simp add: filter_map o_def)
  from Cons.prems have "0 < length (t # ts) \<longrightarrow>
      {..<length (filter (\<lambda>w. fst w = fst ((t # ts) ! 0)) dss)} \<subseteq> set (sched (k + 0))"
    by blast
  then have hd: "{..<length (filter (\<lambda>w. fst w = fst t) dss)} \<subseteq> set (sched k)"
    by simp
  have tl: "\<forall>j < length ts.
      {..<length (filter (\<lambda>w. fst w = fst (ts ! j)) dss)} \<subseteq> set (sched (Suc k + j))"
  proof (intro allI impI)
    fix j assume "j < length ts"
    then have "Suc j < length (t # ts)" by simp
    with Cons.prems have "{..<length (filter (\<lambda>w. fst w = fst ((t # ts) ! Suc j)) dss)}
        \<subseteq> set (sched (k + Suc j))"
      by blast
    then show "{..<length (filter (\<lambda>w. fst w = fst (ts ! j)) dss)} \<subseteq> set (sched (Suc k + j))"
      by simp
  qed
  note IH = Cons.IH [OF tl]
  have rs: "result_sequence xc fm min_cc (t # ts) ?ws =
     (case events_in_order xc fm min_cc (snd t) ?group of
        Inl e \<Rightarrow> Inl e
      | Inr evs \<Rightarrow>
          (case result_sequence xc fm min_cc ts ?ws of
             Inl e \<Rightarrow> Inl e
           | Inr rest \<Rightarrow> Inr (evs @ rest)))"
    unfolding result_sequence_def list.map group
    by (cases "events_in_order xc fm min_cc (snd t) ?group")
       (auto split: sum.splits)
  show ?case
  proof (cases "?group = []")
    case True
    have "events_in_order xc fm min_cc (snd t) [] = Inr []"
      by (simp add: events_in_order_def)
    with True rs IH [of cat] show ?thesis
      by (simp add: Let_def split: sum.splits)
  next
    case False
    then have ne: "length ?group > 0" by simp
    have "{..<length ?group} \<subseteq> set (sched k)" using hd by simp
    from day_loop_eq [OF False this]
    have dl: "day_loop xc fm (sched k) ?group (snd t) min_cc
        = Some (events_in_order xc fm min_cc (snd t) ?group)" .
    show ?thesis
    proof (cases "events_in_order xc fm min_cc (snd t) ?group")
      case (Inl e)
      with dl rs ne show ?thesis by (simp add: Let_def)
    next
      case (Inr evs)
      with dl rs ne IH [of "cat @ evs"] show ?thesis
        by (simp add: Let_def split: sum.splits)
    qed
  qed
qed

subsection \<open>The result sequence in closed form\<close>

text \<open>
  The result sequence is a catalog exactly when it is the concatenation, over the
  templates in their order, of one group per template, and the group of a template holds,
  in the order of the windows, the event that the channel loop returns for each window
  under the name of that template.
\<close>

lemma collect_map_Inr: "collect (map Inr vs) = Inr vs"
  by (induction vs) simp_all

lemma collect_Inr_D: "collect rs = Inr vs \<Longrightarrow> rs = map Inr vs"
proof (induction rs arbitrary: vs)
  case Nil
  then show ?case by simp
next
  case (Cons r rs)
  show ?case
  proof (cases r)
    case (Inl e)
    with Cons.prems show ?thesis by simp
  next
    case (Inr v)
    with Cons.prems obtain vs' where "collect rs = Inr vs'" "vs = v # vs'"
      by (auto split: sum.splits)
    with Cons.IH [of vs'] Inr show ?thesis by simp
  qed
qed

lemma collect_Inr_iff: "collect rs = Inr vs \<longleftrightarrow> rs = map Inr vs"
  using collect_Inr_D collect_map_Inr by metis

lemma map_eq_map_iff_rel: "map f xs = map g ys \<longleftrightarrow> list_all2 (\<lambda>x y. f x = g y) xs ys"
proof -
  have "map f xs = map g ys \<longleftrightarrow> list_all2 (=) (map f xs) (map g ys)"
    by (simp only: list.rel_eq)
  also have "\<dots> \<longleftrightarrow> list_all2 (\<lambda>x y. f x = g y) xs ys"
    by (simp only: list.rel_map)
  finally show ?thesis .
qed

lemma events_in_order_Inr:
  "events_in_order xc fm min_cc tmpl ws = Inr evs \<longleftrightarrow>
     list_all2 (\<lambda>w e. channel_loop xc fm w tmpl min_cc 0 = Inr (0, e)) ws evs"
proof -
  have tag: "map_sum id snd (channel_loop xc fm w tmpl min_cc 0) = Inr e \<longleftrightarrow>
      channel_loop xc fm w tmpl min_cc 0 = Inr (0, e)" for w e
    by (auto simp: channel_loop_def split: sum.splits)
  show ?thesis
    by (simp add: events_in_order_def collect_Inr_iff map_eq_map_iff_rel tag)
qed

lemma result_sequence_Inr:
  "result_sequence xc fm min_cc ts ws = Inr cat \<longleftrightarrow>
     (\<exists>groups. cat = concat groups \<and>
        list_all2 (\<lambda>t g. list_all2 (\<lambda>w e. channel_loop xc fm w (snd t) min_cc 0 = Inr (0, e))
                              (map snd (filter (\<lambda>w. fst w = fst t) ws)) g)
          ts groups)"
proof -
  let ?X = "collect (map (\<lambda>t. events_in_order xc fm min_cc (snd t)
                             (map snd (filter (\<lambda>w. fst w = fst t) ws))) ts)"
  have "result_sequence xc fm min_cc ts ws = Inr cat \<longleftrightarrow>
      (\<exists>groups. cat = concat groups \<and> ?X = Inr groups)"
    unfolding result_sequence_def by (cases ?X) auto
  then show ?thesis
    by (simp add: collect_Inr_iff map_eq_map_iff_rel events_in_order_Inr)
qed

section \<open>The windows\<close>

subsection \<open>One trace of one detection\<close>

lemma trace_loop_unknown:
  assumes "filter (\<lambda>t. fst t = template_name det) zipped = []"
  shows "trace_loop trim fm zipped delays shift_len det (r # rs) st acc = Inl IndexError"
  using assms by (simp add: copy_trace_def)

lemma trace_loop_Cons:
  assumes "filter (\<lambda>t. fst t = template_name det) zipped = t # ts" and "r < length st"
  shows "trace_loop trim fm zipped delays shift_len det (r # rs) st acc =
    (case select fm (snd t) (station (st ! r)) (channel (st ! r)) of
       [] \<Rightarrow> trace_loop trim fm zipped delays shift_len det rs (st @ [st ! r]) acc
     | tt # _ \<Rightarrow>
         if sampling_rate tt = 0 then Inl ZeroDivisionError
         else
           (case lookup_delay delays (template_name det) (station (st ! r)) (channel (st ! r)) of
              Inl e \<Rightarrow> Inl e
            | Inr delay \<Rightarrow>
                (case trim (st ! r) (detect_time det - shift_len + delay)
                        (detect_time det + delay + shift_len
                           + real (length (data tt)) / sampling_rate tt) of
                   Inl e \<Rightarrow> Inl e
                 | Inr trimmed \<Rightarrow>
                     trace_loop trim fm zipped delays shift_len det rs (st @ [trimmed])
                       (acc @ [length st]))))"
  using assms
  by (simp add: copy_trace_def nth_append Let_def split: list.splits sum.splits)



lemma trace_loop_append:
  "trace_loop trim fm zipped delays shift_len det (rs1 @ rs2) st acc =
     (case trace_loop trim fm zipped delays shift_len det rs1 st acc of
        Inl e \<Rightarrow> Inl e
      | Inr res \<Rightarrow> trace_loop trim fm zipped delays shift_len det rs2 (fst res) (snd res))"
proof (induction rs1 arbitrary: st acc)
  case Nil
  show ?case by simp
next
  case (Cons r rs1)
  show ?case
    by (simp add: Cons.IH copy_trace_def Let_def split: list.splits sum.splits)
qed

lemma trace_loop_missing_entry:
  assumes resolve: "filter (\<lambda>t. fst t = template_name det) zipped = t # ts"
    and r: "r < length st"
    and sel: "select fm (snd t) (station (st ! r)) (channel (st ! r)) = tt # rest"
    and rate: "sampling_rate tt \<noteq> 0"
    and table: "filter (\<lambda>dl. fst dl = template_name det) delays = dl # dls"
    and missing: "filter (\<lambda>e. fst e = station (st ! r) \<and> fst (snd e) = channel (st ! r)) (snd dl) = []"
  shows "trace_loop trim fm zipped delays shift_len det (r # rs) st acc = Inl IndexError"
proof -
  from table missing
  have "lookup_delay delays (template_name det) (station (st ! r)) (channel (st ! r))
      = Inl IndexError"
    by (simp add: lookup_delay_def)
  with trace_loop_Cons [OF resolve r, of trim fm delays shift_len rs acc] sel rate
  show ?thesis by simp
qed

subsection \<open>The tables of \<open>lag_calc\<close>\<close>




subsection \<open>The windows of one detection\<close>

lemma zipped_names:
  assumes "delays_loop zipped0 [] = (zipped, Inr delays)"
  shows "map fst zipped = map fst zipped0"
  using assms by (auto simp: delays_loop_eq o_def)

lemma resolve_iff: "name \<in> fst ` set zipped \<longleftrightarrow> filter (\<lambda>t. fst t = name) zipped \<noteq> []"
  by (auto simp: filter_empty_conv)




subsection \<open>The windows of all detections\<close>








subsection \<open>Names and failures of the detection loop\<close>

lemma detections_loop_names:
  assumes "detections_loop trim fm zipped delays shift_len detect_data dets st acc = Inr (st', dss)"
  shows "map fst dss = map fst acc @ map template_name dets"
  using assms
proof (induction dets arbitrary: st acc)
  case Nil
  then show ?case by simp
next
  case (Cons d ds)
  from Cons.prems obtain st1 ws where
    "trace_loop trim fm zipped delays shift_len d detect_data st [] = Inr (st1, ws)" and
    "detections_loop trim fm zipped delays shift_len detect_data ds st1
        (acc @ [(template_name d, ws)]) = Inr (st', dss)"
    by (auto split: sum.splits)
  from Cons.IH [OF this(2)] show ?case by simp
qed

lemma zipped_sorted:
  assumes "delays_loop zipped0 [] = (zipped, Inr delays)"
  shows "fst ` set zipped = fst ` set zipped0"
    and "t \<in> set zipped \<Longrightarrow> \<exists>t0 \<in> set zipped0. set (snd t) = set (snd t0)"
proof -
  from assms have z: "zipped = map (\<lambda>t. (fst t, sort_key starttime (snd t))) zipped0"
    by (simp add: delays_loop_eq)
  show "fst ` set zipped = fst ` set zipped0"
    unfolding z by (simp add: image_image)
  show "t \<in> set zipped \<Longrightarrow> \<exists>t0 \<in> set zipped0. set (snd t) = set (snd t0)"
    unfolding z by force
qed

lemma detections_loop_append:
  "detections_loop trim fm zipped delays shift_len detect_data (pre @ post) st acc =
     (case detections_loop trim fm zipped delays shift_len detect_data pre st acc of
        Inl e \<Rightarrow> Inl e
      | Inr res \<Rightarrow>
          detections_loop trim fm zipped delays shift_len detect_data post (fst res) (snd res))"
proof (induction pre arbitrary: st acc)
  case Nil
  show ?case by simp
next
  case (Cons d pre)
  show ?case by (simp add: Cons.IH split: sum.splits prod.splits)
qed

lemma detections_loop_unknown:
  assumes nonempty: "detect_data \<noteq> []"
    and unknown: "\<exists>d \<in> set dets. template_name d \<notin> fst ` set zipped"
  shows "\<exists>e. detections_loop trim fm zipped delays shift_len detect_data dets st acc = Inl e"
  using unknown
proof (induction dets arbitrary: st acc)
  case Nil
  then show ?case by simp
next
  case (Cons d ds)
  from nonempty obtain r rs where dd: "detect_data = r # rs" by (cases detect_data) auto
  show ?case
  proof (cases "template_name d \<in> fst ` set zipped")
    case False
    then have "filter (\<lambda>t. fst t = template_name d) zipped = []"
      by (simp add: resolve_iff)
    from trace_loop_unknown [OF this]
    have "trace_loop trim fm zipped delays shift_len d detect_data st [] = Inl IndexError"
      unfolding dd .
    then show ?thesis by simp
  next
    case True
    with Cons.prems have rest: "\<exists>d \<in> set ds. template_name d \<notin> fst ` set zipped" by auto
    show ?thesis
    proof (cases "trace_loop trim fm zipped delays shift_len d detect_data st []")
      case (Inl e)
      then show ?thesis by simp
    next
      case (Inr res)
      obtain st1 ws where res: "res = (st1, ws)" by (cases res)
      from Cons.IH [OF rest, of st1 "acc @ [(template_name d, ws)]"] Inr res
      show ?thesis by simp
    qed
  qed
qed

section \<open>\<open>lag_calc\<close> as a whole\<close>

subsection \<open>Success of the channel loop\<close>

lemma channel_step_total:
  assumes "\<forall>im rest. select fm detection (station tr) (channel tr) = im # rest \<longrightarrow>
      xc (data tr) (data im) \<noteq> []"
  shows "\<exists>s'. channel_step xc fm detection min_cc tr s = Inr s'"
proof (cases "select fm detection (station tr) (channel tr)")
  case Nil
  then show ?thesis by (simp add: channel_step_def)
next
  case (Cons im rest)
  with assms have "xc (data tr) (data im) \<noteq> []" by blast
  then obtain pk where pk: "amax (xc (data tr) (data im)) = Inr pk"
    by (cases "xc (data tr) (data im)") simp_all
  show ?thesis
  proof (cases "pk > min_cc")
    case False
    with Cons pk show ?thesis by (simp add: channel_step_def Let_def)
  next
    case True
    with Cons pk show ?thesis
      by (cases "s_stachans s (station tr)")
         (auto simp: channel_step_def Let_def)
  qed
qed

lemma channel_steps_total:
  assumes "correlations_nonempty xc fm trs detection"
  shows "\<exists>s'. channel_steps xc fm detection min_cc trs s = Inr s'"
  using assms
proof (induction trs arbitrary: s)
  case Nil
  show ?case by simp
next
  case (Cons tr trs)
  from Cons.prems have rest: "correlations_nonempty xc fm trs detection"
    by (simp add: correlations_nonempty_def)
  from Cons.prems have "\<forall>im rest. select fm detection (station tr) (channel tr) = im # rest \<longrightarrow>
      xc (data tr) (data im) \<noteq> []"
    by (auto simp: correlations_nonempty_def)
  then have "\<exists>s1. channel_step xc fm detection min_cc tr s = Inr s1"
    by (intro channel_step_total)
  then obtain s1 where "channel_step xc fm detection min_cc tr s = Inr s1" by blast
  with Cons.IH [OF rest, of s1] show ?case by simp
qed

lemma channel_loop_total:
  assumes "correlations_nonempty xc fm template detection"
  shows "\<exists>e. channel_loop xc fm detection template min_cc i = Inr (i, e)"
  using channel_steps_total [OF assms, where min_cc = min_cc and s = init_state]
  by (auto simp: channel_loop_def)

lemma collect_all_Inr:
  assumes "\<forall>r \<in> set rs. \<exists>v. r = Inr v"
  shows "\<exists>vs. collect rs = Inr vs"
  using assms
proof (induction rs)
  case Nil
  show ?case by simp
next
  case (Cons r rs)
  then obtain v vs where "r = Inr v" "collect rs = Inr vs" by auto
  then show ?case by simp
qed

lemma events_in_order_total:
  assumes "\<forall>w \<in> set ws. correlations_nonempty xc fm tmpl w"
  shows "\<exists>evs. events_in_order xc fm min_cc tmpl ws = Inr evs"
  unfolding events_in_order_def
proof (rule collect_all_Inr, rule ballI)
  fix r assume "r \<in> set (map (\<lambda>w. map_sum id snd (channel_loop xc fm w tmpl min_cc 0)) ws)"
  then obtain w where w: "w \<in> set ws"
    and r: "r = map_sum id snd (channel_loop xc fm w tmpl min_cc 0)" by auto
  from w assms have "correlations_nonempty xc fm tmpl w" by blast
  from channel_loop_total [OF this, where min_cc = min_cc and i = 0] obtain e where
    "channel_loop xc fm w tmpl min_cc 0 = Inr (0, e)" by blast
  with r show "\<exists>v. r = Inr v" by simp
qed

lemma result_sequence_total:
  assumes "\<forall>t \<in> set ts. \<forall>w \<in> set ws. fst w = fst t \<longrightarrow>
      correlations_nonempty xc fm (snd t) (snd w)"
  shows "\<exists>cat. result_sequence xc fm min_cc ts ws = Inr cat"
proof -
  have "\<exists>vs. collect (map (\<lambda>t. events_in_order xc fm min_cc (snd t)
                             (map snd (filter (\<lambda>w. fst w = fst t) ws))) ts) = Inr vs"
  proof (rule collect_all_Inr, rule ballI)
    fix r assume "r \<in> set (map (\<lambda>t. events_in_order xc fm min_cc (snd t)
                             (map snd (filter (\<lambda>w. fst w = fst t) ws))) ts)"
    then obtain t where t: "t \<in> set ts"
      and r: "r = events_in_order xc fm min_cc (snd t) (map snd (filter (\<lambda>w. fst w = fst t) ws))"
      by auto
    from t assms have "\<forall>w \<in> set (map snd (filter (\<lambda>w. fst w = fst t) ws)).
        correlations_nonempty xc fm (snd t) w"
      by auto
    from events_in_order_total [OF this, where min_cc = min_cc] r show "\<exists>v. r = Inr v" by simp
  qed
  then show ?thesis by (auto simp: result_sequence_def)
qed

lemma lag_calc_outcome:
  assumes tables: "delays_loop (zip template_names templates) [] = (zipped, Inr delays)"
  shows "snd (lag_calc xc trim fm sched detections st detect_data template_names templates
                shift_len min_cc) =
     (case detections_loop trim fm zipped delays shift_len detect_data detections st [] of
        Inl e \<Rightarrow> Some (Inl e)
      | Inr res \<Rightarrow> segregate xc fm sched min_cc (fst res) 0 zipped (snd res) [])"
  using tables by (simp add: lag_calc_def split: sum.splits prod.splits)

lemma tables_exist:
  "\<exists>zipped delays. delays_loop zipped0 [] = (zipped, Inr delays)"
  by (simp add: delays_loop_eq)

lemma group_size:
  assumes "map fst windows = map template_name detections"
  shows "length (filter (\<lambda>w. fst w = n) windows)
       = length (filter (\<lambda>d. template_name d = n) detections)"
proof -
  have "length (filter (\<lambda>w. fst w = n) windows) = length (filter (\<lambda>x. x = n) (map fst windows))"
    by (simp add: filter_map o_def)
  also have "\<dots> = length (filter (\<lambda>x. x = n) (map template_name detections))"
    by (simp only: assms)
  also have "\<dots> = length (filter (\<lambda>d. template_name d = n) detections)"
    by (simp add: filter_map o_def)
  finally show ?thesis .
qed

lemma segregate_lag_calc:
  assumes complete: "\<forall>k. k < length template_names \<and> k < length templates \<longrightarrow>
      {..<length (filter (\<lambda>d. template_name d = template_names ! k) detections)}
        \<subseteq> set (sched k)"
    and tables: "delays_loop (zip template_names templates) [] = (zipped, Inr delays)"
    and windows: "detections_loop trim fm zipped delays shift_len detect_data detections st []
        = Inr (st', windows)"
  shows "segregate xc fm sched min_cc st' 0 zipped windows [] =
     Some (result_sequence xc fm min_cc zipped (map (\<lambda>w. (fst w, map ((!) st') (snd w))) windows))"
proof -
  have names: "map fst windows = map template_name detections"
    using detections_loop_names [OF windows] by simp
  have zn: "map fst zipped = map fst (zip template_names templates)"
    by (rule zipped_names [OF tables])
  then have len: "length zipped = length (zip template_names templates)"
    by (metis length_map)
  have "\<forall>j < length zipped.
      {..<length (filter (\<lambda>w. fst w = fst (zipped ! j)) windows)} \<subseteq> set (sched (0 + j))"
  proof (intro allI impI)
    fix j assume j: "j < length zipped"
    then have j': "j < length template_names" "j < length templates"
      using len by simp_all
    have "fst (zipped ! j) = map fst zipped ! j" using j by simp
    also have "\<dots> = template_names ! j" unfolding zn using j' by simp
    finally have "fst (zipped ! j) = template_names ! j" .
    with complete j' show "{..<length (filter (\<lambda>w. fst w = fst (zipped ! j)) windows)}
        \<subseteq> set (sched (0 + j))"
      by (simp add: group_size [OF names])
  qed
  from segregate_eq [OF this, where xc = xc and fm = fm and min_cc = min_cc and st = st'
      and cat = "[]"] show ?thesis
    by (simp split: sum.splits)
qed

subsection \<open>Claims about \<open>lag_calc\<close>\<close>

text \<open>
  C2. Whenever the windows are built, and whatever the completion order of the tasks of
  each pool (every task of the pool of template \<open>k\<close> completes somewhere in \<open>sched k\<close>),
  the outcome of \<open>lag_calc\<close> is the result sequence of the specification: the templates in
  the order of the caller, and for each template the events of its detections in the order
  of the input detections. The windows are in the order of the detections and the zipped
  templates in the order of the template names. The right-hand side does not mention the
  completion orders.
\<close>

theorem lag_calc_result_order:
  assumes complete: "\<forall>k. k < length template_names \<and> k < length templates \<longrightarrow>
      {..<length (filter (\<lambda>d. template_name d = template_names ! k) detections)}
        \<subseteq> set (sched k)"
    and tables: "delays_loop (zip template_names templates) [] = (zipped, Inr delays)"
    and windows: "detections_loop trim fm zipped delays shift_len detect_data detections st []
        = Inr (st', windows)"
  shows "snd (lag_calc xc trim fm sched detections st detect_data template_names templates
                shift_len min_cc) =
     Some (result_sequence xc fm min_cc zipped
             (map (\<lambda>w. (fst w, map ((!) st') (snd w))) windows)) \<and>
     map fst windows = map template_name detections \<and>
     map fst zipped = map fst (zip template_names templates)"
proof -
  have "snd (lag_calc xc trim fm sched detections st detect_data template_names templates
                shift_len min_cc) = segregate xc fm sched min_cc st' 0 zipped windows []"
    by (simp add: lag_calc_outcome [OF tables] windows)
  with segregate_lag_calc [OF complete tables windows]
    detections_loop_names [OF windows] zipped_names [OF tables]
  show ?thesis by simp
qed

theorem lag_calc_result_order_witness:
  "snd (lag_calc xc_window trim_start fnmatch_plain second_first three_detections data_store [0]
          [''t1'', ''t2''] [late_first_template, vertical_template] (1 / 5) (2 / 5))
     = Some (Inr [\<lparr>picks = [mk_pick ''STA1'' ''EHZ'' (499 / 5) (Some ''P'')]\<rparr>,
                  \<lparr>picks = [mk_pick ''STA1'' ''EHZ'' (999 / 5) (Some ''P'')]\<rparr>,
                  \<lparr>picks = [mk_pick ''STA1'' ''EHZ'' (749 / 5) (Some ''P'')]\<rparr>])"
proof -
  let ?zipped = "[(''t1'', [mk_trace ''STA1'' ''EHZ'' 3 [1], mk_trace ''STA1'' ''EHN'' 5 [1]]),
                  (''t2'', vertical_template)]"
  let ?delays = "[(''t1'', [(''STA1'', ''EHN'', 2), (''STA1'', ''EHZ'', 0)]),
                  (''t2'', [(''STA1'', ''EHZ'', 0)])]"
  let ?st = "data_store @
      [mk_trace ''STA1'' ''EHZ'' (499 / 5) [1 / 2, 1 / 5],
       mk_trace ''STA1'' ''EHZ'' (749 / 5) [1 / 2, 1 / 5],
       mk_trace ''STA1'' ''EHZ'' (999 / 5) [1 / 2, 1 / 5]]"
  let ?windows = "[(''t1'', [2]), (''t2'', [3]), (''t1'', [4 :: nat])]"
  have complete: "\<forall>k. k < length [''t1'', ''t2''] \<and>
        k < length [late_first_template, vertical_template] \<longrightarrow>
      {..<length (filter (\<lambda>d. template_name d = [''t1'', ''t2''] ! k) three_detections)}
        \<subseteq> set (second_first k)"
    by (auto simp: three_detections_def second_first_def less_Suc_eq numeral_2_eq_2)
  have tables: "delays_loop (zip [''t1'', ''t2''] [late_first_template, vertical_template]) []
      = (?zipped, Inr ?delays)"
    by (simp add: late_first_template_def vertical_template_def mk_trace_def)
  have windows: "detections_loop trim_start fnmatch_plain ?zipped ?delays (1 / 5) [0] three_detections
      data_store [] = Inr (?st, ?windows)"
    by (simp add: three_detections_def data_store_def vertical_template_def mk_trace_def
        trim_start_def copy_trace_def select_def lookup_delay_def fnmatch_plain_def upper_def
        upper_char_def)
  have "result_sequence xc_window fnmatch_plain (2 / 5) ?zipped
          (map (\<lambda>w. (fst w, map ((!) ?st) (snd w))) ?windows)
     = Inr [\<lparr>picks = [mk_pick ''STA1'' ''EHZ'' (499 / 5) (Some ''P'')]\<rparr>,
            \<lparr>picks = [mk_pick ''STA1'' ''EHZ'' (999 / 5) (Some ''P'')]\<rparr>,
            \<lparr>picks = [mk_pick ''STA1'' ''EHZ'' (749 / 5) (Some ''P'')]\<rparr>]"
    by (simp add: result_sequence_def events_in_order_def eval_defs data_store_def
        vertical_template_def)
  with lag_calc_result_order [OF complete tables windows, where xc = xc_window and min_cc = "2 / 5"]
  show ?thesis by simp
qed

text \<open>
  C4. The claim: \<open>lag_calc\<close> fails with a configuration error when a template has no
  channel, when \<open>shift_len\<close> is negative, or when \<open>min_cc\<close> is outside the open interval
  from 0 to 1. The code checks none of these. With one detection of template \<open>t1\<close> and no
  continuous data, so that neither \<open>trim\<close> nor the correlation nor \<open>fnmatch\<close> is called,
  each of the three calls below returns a catalog with one event without picks, whatever
  these three functions are: the first has a template without channels, the second a
  negative \<open>shift_len\<close>, the third \<open>min_cc\<close> = 2.
\<close>

theorem lag_calc_accepts_any_configuration:
  "\<forall>xc trim fm.
     snd (lag_calc xc trim fm (\<lambda>k. [0]) [det_t1] [] [] [''t1'', ''t2'']
            [late_first_template, []] (1 / 5) (2 / 5)) = Some (Inr [\<lparr>picks = []\<rparr>]) \<and>
     snd (lag_calc xc trim fm (\<lambda>k. [0]) [det_t1] [] [] [''t1'']
            [late_first_template] (- 1) (2 / 5)) = Some (Inr [\<lparr>picks = []\<rparr>]) \<and>
     snd (lag_calc xc trim fm (\<lambda>k. [0]) [det_t1] [] [] [''t1'']
            [late_first_template] (1 / 5) 2) = Some (Inr [\<lparr>picks = []\<rparr>])"
  by (simp add: lag_calc_def late_first_template_def mk_trace_def det_t1_def day_loop_def
      channel_loop_def channel_step_def init_state_def select_def)

text \<open>
  C4, amended. \<open>lag_calc\<close> validates neither the templates nor \<open>shift_len\<close> nor \<open>min_cc\<close>
  and raises no configuration error: for all values of these, templates without channels
  included, it returns a catalog whenever the windows of the detections are built (no
  exception in the loop over the detections), every correlation sequence that a channel
  loop computes is non-empty and every task of every pool completes.
\<close>

theorem lag_calc_no_validation:
  assumes tables: "delays_loop (zip template_names templates) [] = (zipped, Inr delays)"
    and windows: "detections_loop trim fm zipped delays shift_len detect_data detections st []
        = Inr (st', windows)"
    and nonempty: "\<forall>t \<in> set zipped. \<forall>w \<in> set windows. fst w = fst t \<longrightarrow>
        correlations_nonempty xc fm (snd t) (map ((!) st') (snd w))"
    and complete: "\<forall>k. k < length template_names \<and> k < length templates \<longrightarrow>
      {..<length (filter (\<lambda>d. template_name d = template_names ! k) detections)}
        \<subseteq> set (sched k)"
  shows "\<exists>cat. snd (lag_calc xc trim fm sched detections st detect_data template_names templates
                shift_len min_cc) = Some (Inr cat)"
proof -
  have "\<forall>t \<in> set zipped. \<forall>w \<in> set (map (\<lambda>w. (fst w, map ((!) st') (snd w))) windows).
      fst w = fst t \<longrightarrow> correlations_nonempty xc fm (snd t) (snd w)"
    using nonempty by auto
  from result_sequence_total [OF this, where min_cc = min_cc] obtain cat where
    "result_sequence xc fm min_cc zipped (map (\<lambda>w. (fst w, map ((!) st') (snd w))) windows)
       = Inr cat"
    by blast
  with segregate_lag_calc [OF complete tables windows, where xc = xc and min_cc = min_cc]
  show ?thesis by (simp add: lag_calc_outcome [OF tables] windows)
qed

theorem lag_calc_no_validation_witness:
  "\<exists>cat. snd (lag_calc xc_window trim_start fnmatch_plain (\<lambda>k. [0]) [det_t1] short_window_store
          [0, 1] [''t1'', ''t2''] [late_first_template, []] (- (1 / 1000)) 2) = Some (Inr cat)"
proof -
  let ?zipped = "[(''t1'', [mk_trace ''STA1'' ''EHZ'' 3 [1], mk_trace ''STA1'' ''EHN'' 5 [1]]),
                  (''t2'', [])]"
  let ?delays = "[(''t1'', [(''STA1'', ''EHN'', 2), (''STA1'', ''EHZ'', 0)]), (''t2'', [])]"
  let ?st' = "short_window_store @
      [mk_trace ''STA1'' ''EHN'' (102001 / 1000) [1 / 2],
       mk_trace ''STA2'' ''EHZ'' 90 [1 / 2]]"
  let ?windows = "[(''t1'', [2 :: nat])]"
  have tables: "delays_loop (zip [''t1'', ''t2''] [late_first_template, []]) []
      = (?zipped, Inr ?delays)"
    by (simp add: late_first_template_def mk_trace_def)
  have windows: "detections_loop trim_start fnmatch_plain ?zipped ?delays (- (1 / 1000)) [0, 1]
      [det_t1] short_window_store [] = Inr (?st', ?windows)"
    by (simp add: det_t1_def short_window_store_def mk_trace_def trim_start_def copy_trace_def
        select_def lookup_delay_def fnmatch_plain_def upper_def upper_char_def)
  have nonempty: "\<forall>t \<in> set ?zipped. \<forall>w \<in> set ?windows. fst w = fst t \<longrightarrow>
        correlations_nonempty xc_window fnmatch_plain (snd t) (map ((!) ?st') (snd w))"
    by (simp add: correlations_nonempty_def short_window_store_def mk_trace_def select_def
        xc_window_def fnmatch_plain_def upper_def upper_char_def)
  have complete: "\<forall>k. k < length [''t1'', ''t2''] \<and> k < length [late_first_template, []] \<longrightarrow>
      {..<length (filter (\<lambda>d. template_name d = [''t1'', ''t2''] ! k) [det_t1])}
        \<subseteq> set ((\<lambda>k. [0]) k)"
    by (auto simp: det_t1_def less_Suc_eq numeral_2_eq_2)
  from lag_calc_no_validation [OF tables windows nonempty complete]
  show ?thesis .
qed

text \<open>
  C9. The claim: \<open>lag_calc\<close> fails with a lookup error when a detection names a template
  that was not supplied. The template is looked up inside the loop over the traces of the
  continuous data (line 196), so with no continuous trace nothing is looked up: the call
  below returns the empty catalog and the detection is dropped, whatever \<open>trim\<close>, the
  correlation and \<open>fnmatch\<close> are.
\<close>

theorem unknown_template_dropped:
  "\<forall>xc trim fm.
     template_name det_nope \<notin> fst ` set (zip [''t1''] [late_first_template]) \<and>
     snd (lag_calc xc trim fm (\<lambda>k. []) [det_nope] [] [] [''t1''] [late_first_template]
            (1 / 5) (2 / 5)) = Some (Inr [])"
  by (simp add: lag_calc_def late_first_template_def mk_trace_def det_nope_def)

text \<open>
  C9, amended. Let the detections before a detection \<open>d\<close> have their windows built. If the
  continuous data has at least one trace and \<open>d\<close> names a template that is not among the
  zipped templates, \<open>lag_calc\<close> raises \<open>IndexError\<close> (a \<open>LookupError\<close> of Python). If \<open>d\<close>
  has a template, the traces of the continuous data before a trace \<open>r\<close> have been handled
  without exception, \<open>select\<close> finds the station and channel of \<open>r\<close> in the template, the
  first selected trace has a sampling rate other than 0, and the delay table of the
  template has no entry with exactly the station and channel of \<open>r\<close>, \<open>lag_calc\<close> raises
  \<open>IndexError\<close> as well. Both end the whole call. In any case, with a non-empty continuous
  data and a detection of an unknown template, the call raises.
\<close>

theorem lag_calc_lookup_errors:
  assumes tables: "delays_loop (zip template_names templates) [] = (zipped, Inr delays)"
    and split: "detections = pre @ d # post"
    and earlier: "detections_loop trim fm zipped delays shift_len detect_data pre st []
        = Inr (st1, ws1)"
  shows
    "(detect_data \<noteq> [] \<and> template_name d \<notin> fst ` set (zip template_names templates) \<longrightarrow>
        snd (lag_calc xc trim fm sched detections st detect_data template_names templates
               shift_len min_cc) = Some (Inl IndexError)) \<and>
     (\<forall>rs1 r rs2 st2 ws2 t ts tt rest dl dls.
        detect_data = rs1 @ r # rs2 \<and>
        trace_loop trim fm zipped delays shift_len d rs1 st1 [] = Inr (st2, ws2) \<and>
        r < length st2 \<and>
        filter (\<lambda>t. fst t = template_name d) zipped = t # ts \<and>
        select fm (snd t) (station (st2 ! r)) (channel (st2 ! r)) = tt # rest \<and>
        sampling_rate tt \<noteq> 0 \<and>
        filter (\<lambda>dl. fst dl = template_name d) delays = dl # dls \<and>
        filter (\<lambda>e. fst e = station (st2 ! r) \<and> fst (snd e) = channel (st2 ! r)) (snd dl) = []
        \<longrightarrow>
        snd (lag_calc xc trim fm sched detections st detect_data template_names templates
               shift_len min_cc) = Some (Inl IndexError)) \<and>
     (detect_data \<noteq> [] \<and>
      (\<exists>d' \<in> set detections. template_name d' \<notin> fst ` set (zip template_names templates)) \<longrightarrow>
        (\<exists>e. snd (lag_calc xc trim fm sched detections st detect_data template_names templates
               shift_len min_cc) = Some (Inl e)))"
proof (intro conjI impI allI)
  have names: "fst ` set zipped = fst ` set (zip template_names templates)"
    by (rule zipped_sorted(1) [OF tables])
  have fail: "snd (lag_calc xc trim fm sched detections st detect_data template_names templates
               shift_len min_cc) = Some (Inl e)"
    if "trace_loop trim fm zipped delays shift_len d detect_data st1 [] = Inl e" for e
    using that earlier
    by (simp add: lag_calc_outcome [OF tables] split detections_loop_append)
  {
    assume "detect_data \<noteq> [] \<and> template_name d \<notin> fst ` set (zip template_names templates)"
    then obtain r rs where dd: "detect_data = r # rs"
      and "filter (\<lambda>t. fst t = template_name d) zipped = []"
      by (cases detect_data) (auto simp: names [symmetric] resolve_iff)
    from trace_loop_unknown [OF this(2), of trim fm delays shift_len r rs st1 "[]"]
    show "snd (lag_calc xc trim fm sched detections st detect_data template_names templates
               shift_len min_cc) = Some (Inl IndexError)"
      unfolding dd [symmetric] by (rule fail)
  }
  {
    fix rs1 r rs2 st2 ws2 t ts tt rest dl dls
    assume h: "detect_data = rs1 @ r # rs2 \<and>
        trace_loop trim fm zipped delays shift_len d rs1 st1 [] = Inr (st2, ws2) \<and>
        r < length st2 \<and>
        filter (\<lambda>t. fst t = template_name d) zipped = t # ts \<and>
        select fm (snd t) (station (st2 ! r)) (channel (st2 ! r)) = tt # rest \<and>
        sampling_rate tt \<noteq> 0 \<and>
        filter (\<lambda>dl. fst dl = template_name d) delays = dl # dls \<and>
        filter (\<lambda>e. fst e = station (st2 ! r) \<and> fst (snd e) = channel (st2 ! r)) (snd dl) = []"
    then have r: "r < length st2"
      and rz: "filter (\<lambda>t. fst t = template_name d) zipped = t # ts"
      and sel: "select fm (snd t) (station (st2 ! r)) (channel (st2 ! r)) = tt # rest"
      and rate: "sampling_rate tt \<noteq> 0"
      and tab: "filter (\<lambda>dl. fst dl = template_name d) delays = dl # dls"
      and mis: "filter (\<lambda>e. fst e = station (st2 ! r) \<and> fst (snd e) = channel (st2 ! r))
          (snd dl) = []"
      by simp_all
    have "trace_loop trim fm zipped delays shift_len d (r # rs2) st2 ws2 = Inl IndexError"
      by (rule trace_loop_missing_entry [OF rz r sel rate tab mis])
    with h have "trace_loop trim fm zipped delays shift_len d detect_data st1 [] = Inl IndexError"
      by (simp add: trace_loop_append)
    then show "snd (lag_calc xc trim fm sched detections st detect_data template_names templates
               shift_len min_cc) = Some (Inl IndexError)"
      by (rule fail)
  }
  {
    assume "detect_data \<noteq> [] \<and>
      (\<exists>d' \<in> set detections. template_name d' \<notin> fst ` set (zip template_names templates))"
    then have "detect_data \<noteq> []"
      and "\<exists>d' \<in> set detections. template_name d' \<notin> fst ` set zipped"
      by (simp_all add: names)
    from detections_loop_unknown [OF this, of trim fm delays shift_len st "[]"]
    show "\<exists>e. snd (lag_calc xc trim fm sched detections st detect_data template_names templates
               shift_len min_cc) = Some (Inl e)"
      by (auto simp: lag_calc_outcome [OF tables])
  }
qed

theorem lag_calc_lookup_errors_witness:
  "snd (lag_calc xc_window trim_start fnmatch_plain (\<lambda>k. []) [det_t1, det_nope] data_store [0, 1]
          [''t1''] [late_first_template] (1 / 5) (2 / 5)) = Some (Inl IndexError) \<and>
   snd (lag_calc xc_window trim_start fnmatch_plain (\<lambda>k. []) [det_t1] lower_case_store [0]
          [''t1''] [late_first_template] (1 / 5) (2 / 5)) = Some (Inl IndexError)"
proof -
  let ?tmpl = "[mk_trace ''STA1'' ''EHZ'' 3 [1], mk_trace ''STA1'' ''EHN'' 5 [1]]"
  let ?zipped = "[(''t1'', ?tmpl)]"
  let ?entries = "[(''STA1'', ''EHN'', 2 :: real), (''STA1'', ''EHZ'', 0)]"
  let ?delays = "[(''t1'', ?entries)]"
  have tables: "delays_loop (zip [''t1''] [late_first_template]) [] = (?zipped, Inr ?delays)"
    by (simp add: late_first_template_def mk_trace_def)
  have split1: "[det_t1, det_nope] = [det_t1] @ det_nope # []" by simp
  have earlier1: "detections_loop trim_start fnmatch_plain ?zipped ?delays (1 / 5) [0, 1]
      [det_t1] data_store []
      = Inr (data_store @ [mk_trace ''STA1'' ''EHZ'' (499 / 5) [1 / 2, 1 / 5],
                           mk_trace ''STA2'' ''EHZ'' 90 [1 / 2]], [(''t1'', [2])])"
    by (simp add: det_t1_def data_store_def mk_trace_def trim_start_def copy_trace_def
        select_def lookup_delay_def fnmatch_plain_def upper_def upper_char_def)
  have unknown: "[0, 1 :: nat] \<noteq> [] \<and>
      template_name det_nope \<notin> fst ` set (zip [''t1''] [late_first_template])"
    by (simp add: det_nope_def)
  from lag_calc_lookup_errors [where xc = xc_window and sched = "\<lambda>k. []" and min_cc = "2 / 5",
      OF tables split1 earlier1, THEN conjunct1, THEN mp, OF unknown]
  have first: "snd (lag_calc xc_window trim_start fnmatch_plain (\<lambda>k. []) [det_t1, det_nope]
      data_store [0, 1] [''t1''] [late_first_template] (1 / 5) (2 / 5)) = Some (Inl IndexError)" .
  have split2: "[det_t1] = [] @ det_t1 # []" by simp
  have earlier2: "detections_loop trim_start fnmatch_plain ?zipped ?delays (1 / 5) [0]
      [] lower_case_store [] = Inr (lower_case_store, [])"
    by simp
  have missing: "[0] = [] @ (0 :: nat) # [] \<and>
      trace_loop trim_start fnmatch_plain ?zipped ?delays (1 / 5) det_t1 [] lower_case_store []
        = Inr (lower_case_store, []) \<and>
      0 < length lower_case_store \<and>
      filter (\<lambda>t. fst t = template_name det_t1) ?zipped = (''t1'', ?tmpl) # [] \<and>
      select fnmatch_plain (snd (''t1'', ?tmpl)) (station (lower_case_store ! 0))
        (channel (lower_case_store ! 0)) = mk_trace ''STA1'' ''EHZ'' 3 [1] # [] \<and>
      sampling_rate (mk_trace ''STA1'' ''EHZ'' 3 [1]) \<noteq> 0 \<and>
      filter (\<lambda>dl. fst dl = template_name det_t1) ?delays = (''t1'', ?entries) # [] \<and>
      filter (\<lambda>e. fst e = station (lower_case_store ! 0) \<and>
                   fst (snd e) = channel (lower_case_store ! 0)) (snd (''t1'', ?entries)) = []"
    by (simp add: det_t1_def lower_case_store_def mk_trace_def select_def fnmatch_plain_def
        upper_def upper_char_def)
  from lag_calc_lookup_errors [where xc = xc_window and sched = "\<lambda>k. []" and min_cc = "2 / 5",
      OF tables split2 earlier2, THEN conjunct2, THEN conjunct1, rule_format,
      of "[]" 0 "[]" lower_case_store "[]" "(''t1'', ?tmpl)" "[]"
        "mk_trace ''STA1'' ''EHZ'' 3 [1]" "[]" "(''t1'', ?entries)" "[]",
      OF missing]
  have second: "snd (lag_calc xc_window trim_start fnmatch_plain (\<lambda>k. []) [det_t1]
      lower_case_store [0] [''t1''] [late_first_template] (1 / 5) (2 / 5))
      = Some (Inl IndexError)" .
  from first second show ?thesis by (rule conjI)
qed

end
